theory Spec2Isabelle
  imports Complex_Main
begin

section \<open>Separable non-linear least squares (deerlab/snlls.py)\<close>

text \<open>
  A shallow embedding of \<^verbatim>\<open>snlls\<close>, its closure \<^verbatim>\<open>ResidualsFcn\<close>, the
  wrapper \<^verbatim>\<open>ci\<close> and the helper \<^verbatim>\<open>_augment\<close>.

  Conventions of the model.
  \<^item> A float is a \<^typ>\<open>real\<close>: rounding is not modelled, and neither are NaN and the
    negative zero. The infinities occur in the source as bound values and as a
    condition number; values that can be infinite have the type \<open>xfloat\<close> below.
    Where the source divides a numpy array by an array with a component that can be
    zero (line 213), the model writes out what numpy computes there (an infinity or
    NaN, both of which compare false with \<^verbatim>\<open><\<close> against a finite threshold).
  \<^item> A 1-D array is a list, a 2-D array a list of rows of one length. A matrix
    without rows carries no column count.
  \<^item> Every \<^verbatim>\<open>raise\<close> of the source and every implicit failure of the
    interpreter or of numpy on the modelled paths (an unbound name, operands of
    different shapes, an index out of range, \<^verbatim>\<open>argmin\<close> of nothing) is a
    value of the type \<open>error\<close>.
  \<^item> The string tests \<^verbatim>\<open>regtype is 'tikhonov'\<close> and \<^verbatim>\<open>nnlsSolver is 'cvx'\<close>
    compare identities, not texts. The values of these two parameters are therefore
    of the type \<open>pystr\<close> below, which tells the object that a literal denotes from
    another string object with the same text.
  \<^item> A division of one Python number by another raises \<^verbatim>\<open>ZeroDivisionError\<close>
    when the divisor is zero; a division of numpy arrays does not raise.
  \<^item> The collaborators that are not part of this file of the repository (the linear
    solvers, \<^verbatim>\<open>least_squares\<close>, \<^verbatim>\<open>selregparam\<close>, \<^verbatim>\<open>lsqcomponents\<close>,
    \<^verbatim>\<open>regoperator\<close>, \<^verbatim>\<open>multistarts\<close>, \<^verbatim>\<open>jacobianest\<close>, \<^verbatim>\<open>hccm\<close>,
    \<^verbatim>\<open>uqst\<close>, \<^verbatim>\<open>goodness_of_fit\<close>, \<^verbatim>\<open>np.linalg.cond\<close>) are parameters,
    collected in the record \<open>env\<close>; they are taken to return.
\<close>

subsection \<open>Arrays, infinities and errors\<close>

type_synonym vec = "real list"
type_synonym matrix = "real list list"

datatype xfloat = MinusInf | Val real | PlusInf

datatype error =
    TypeError_nonlin_bounds nat
  | TypeError_lin_bounds nat
  | ValueError_bounds
  | ValueError_start
  | TypeError_multistart
  | NameError_linSolver
  | UnboundLocalError_resreg
  | ValueError_shape
  | ValueError_argmin_empty
  | IndexError
  | ZeroDivisionError

text \<open>
  The first five are the \<^verbatim>\<open>raise\<close> statements of \<^verbatim>\<open>snlls\<close>, in the order of the
  source: the two \<^verbatim>\<open>TypeError\<close>s on the number of bounds (carrying the expected
  number), the \<^verbatim>\<open>ValueError\<close> on crossed bounds, the \<^verbatim>\<open>ValueError\<close> on the start
  values, and the \<^verbatim>\<open>TypeError\<close> on a multi-start search without constraints. The
  others are raised by the interpreter (a name read before it is bound) or by numpy.
\<close>

text \<open>
  A Python string under \<^verbatim>\<open>is\<close>. The literals of the source with one text are one
  interned object: \<open>Lit t\<close> is that object, which is also what a caller passes who
  writes the literal; \<open>Obj t\<close> is any other string object with the text \<open>t\<close>, such
  as one built at run time or read from a file. \<^verbatim>\<open>s is 'name'\<close> holds for the first
  only.
\<close>

datatype pystr = Lit string | Obj string

fun text_of :: "pystr \<Rightarrow> string" where
  "text_of (Lit t) = t"
| "text_of (Obj t) = t"

definition py_is :: "pystr \<Rightarrow> string \<Rightarrow> bool" where
  "py_is s name = (s = Lit name)"

fun isinf :: "xfloat \<Rightarrow> bool" where
  "isinf (Val _) = False"
| "isinf _ = True"

fun xless :: "xfloat \<Rightarrow> xfloat \<Rightarrow> bool" where
  "xless MinusInf MinusInf = False"
| "xless MinusInf _ = True"
| "xless (Val a) (Val b) = (a < b)"
| "xless (Val _) PlusInf = True"
| "xless (Val _) MinusInf = False"
| "xless PlusInf _ = False"

definition and_then :: "error + 'a \<Rightarrow> ('a \<Rightarrow> error + 'b) \<Rightarrow> error + 'b" where
  "and_then m f = (case m of Inl e \<Rightarrow> Inl e | Inr v \<Rightarrow> f v)"

definition ncols :: "matrix \<Rightarrow> nat" where
  "ncols A = (case A of [] \<Rightarrow> 0 | r # _ \<Rightarrow> length r)"

definition np_size :: "matrix \<Rightarrow> nat" where
  "np_size A = length (concat A)"

definition dot :: "vec \<Rightarrow> vec \<Rightarrow> real" where
  "dot u v = sum_list (map2 (*) u v)"

text \<open>\<^verbatim>\<open>A @ x\<close> for a 2-D \<open>A\<close> and a 1-D \<open>x\<close>: numpy raises unless the rows of
  \<open>A\<close> are as long as \<open>x\<close>.\<close>

definition matvec :: "matrix \<Rightarrow> vec \<Rightarrow> error + vec" where
  "matvec A x =
     (if list_all (\<lambda>row. length row = length x) A then Inr (map (\<lambda>row. dot row x) A)
      else Inl ValueError_shape)"

text \<open>An elementwise operation on two 1-D arrays, with numpy's broadcasting: equal
  lengths, or one of the two of length one.\<close>

definition broadcast :: "('a \<Rightarrow> 'b \<Rightarrow> 'c) \<Rightarrow> 'a list \<Rightarrow> 'b list \<Rightarrow> error + 'c list" where
  "broadcast f xs ys =
     (if length xs = length ys then Inr (map2 f xs ys)
      else if length xs = 1 then Inr (map (f (hd xs)) ys)
      else if length ys = 1 then Inr (map (\<lambda>x. f x (hd ys)) xs)
      else Inl ValueError_shape)"

definition scale_vec :: "real \<Rightarrow> vec \<Rightarrow> vec" where
  "scale_vec c v = map (\<lambda>x. c * x) v"

definition scale_mat :: "real \<Rightarrow> matrix \<Rightarrow> matrix" where
  "scale_mat c A = map (scale_vec c) A"

text \<open>\<^verbatim>\<open>c[:, np.newaxis] * L\<close>: row \<open>i\<close> of \<open>L\<close> times \<open>c[i]\<close>. The vector \<open>c\<close> is
  computed from \<^verbatim>\<open>L @ x\<close> and has one entry for each row of \<open>L\<close>.\<close>

definition scale_rows :: "vec \<Rightarrow> matrix \<Rightarrow> matrix" where
  "scale_rows c L = map2 scale_vec c L"

text \<open>\<^verbatim>\<open>np.concatenate((A, B), 1)\<close> needs as many rows in \<open>A\<close> as in \<open>B\<close>;
  \<^verbatim>\<open>np.concatenate((A, B))\<close> needs as many columns.\<close>

definition hconcat :: "matrix \<Rightarrow> matrix \<Rightarrow> error + matrix" where
  "hconcat A B = (if length A = length B then Inr (map2 (@) A B) else Inl ValueError_shape)"

definition vconcat :: "matrix \<Rightarrow> matrix \<Rightarrow> error + matrix" where
  "vconcat A B =
     (if A = [] \<or> B = [] \<or> ncols A = ncols B then Inr (A @ B) else Inl ValueError_shape)"

subsection \<open>The augmentation of residual and Jacobian\<close>

text \<open>\<^verbatim>\<open>np.finfo(float).eps\<close>, the machine epsilon of a double.\<close>

definition eps :: real where
  "eps = 1 / 2 ^ 52"

text \<open>
  The branch on \<^verbatim>\<open>regtype\<close> of \<^verbatim>\<open>_augment\<close>, lines 345 to 353, with \<open>r\<close> the
  value of \<^verbatim>\<open>L@x\<close>. It binds \<^verbatim>\<open>resreg\<close> and \<^verbatim>\<open>Jreg\<close>, or neither when no
  test matches (there is no \<^verbatim>\<open>else\<close>). All the powers are taken of positive
  numbers, where \<^verbatim>\<open>**\<close> is \<open>powr\<close>. In the third branch \<^verbatim>\<open>eta\<close> is a Python
  number: line 352 divides an array by it, which does not raise, and line 353
  starts with \<^verbatim>\<open>0.5/(eta**2)\<close>, which raises for \<^verbatim>\<open>eta = 0\<close>.
\<close>

definition penalty_terms ::
  "pystr \<Rightarrow> matrix \<Rightarrow> vec \<Rightarrow> real \<Rightarrow> error + (vec \<times> matrix) option" where
  "penalty_terms regtype L x eta =
     (if py_is regtype ''tikhonov'' then
        and_then (matvec L x) (\<lambda>r. Inr (Some (r, L)))
      else if py_is regtype ''tv'' then
        and_then (matvec L x) (\<lambda>r. Inr (Some
          (map (\<lambda>ri. (ri ^ 2 + eps) powr (1 / 4)) r,
           scale_mat (2 / 4)
             (scale_rows (map (\<lambda>ri. (ri ^ 2 + eps) powr (- 3 / 4) * ri) r) L))))
      else if py_is regtype ''huber'' then
        and_then (matvec L x) (\<lambda>r.
          if eta = 0 then Inl ZeroDivisionError
          else Inr (Some
            (map (\<lambda>ri. sqrt (sqrt ((ri / eta) ^ 2 + 1) - 1)) r,
             scale_mat (0.5 / eta ^ 2)
               (scale_rows
                 (map (\<lambda>ri. (sqrt ((ri / eta) ^ 2 + 1) - 1 + eps) powr (- 1 / 2)
                              * ((ri / eta) ^ 2 + 1 + eps) powr (- 1 / 2) * ri) r) L))))
      else Inr None)"

text \<open>
  \<^verbatim>\<open>_augment(res,J,regtype,alpha,L,x,eta,Nnonlin)\<close>. With no branch taken, the
  read of \<^verbatim>\<open>resreg\<close> in \<^verbatim>\<open>resreg = alpha*resreg\<close> fails. The absent Jacobian
  is passed as \<^verbatim>\<open>[]\<close>; the test is \<^verbatim>\<open>np.size(J) != 0\<close>.
\<close>

definition augment ::
  "vec \<Rightarrow> matrix \<Rightarrow> pystr \<Rightarrow> real \<Rightarrow> matrix \<Rightarrow> vec \<Rightarrow> real \<Rightarrow> nat \<Rightarrow> error + (vec \<times> matrix)" where
  "augment res J regtype alpha L x eta Nnonlin =
     (case penalty_terms regtype L x eta of
        Inl e \<Rightarrow> Inl e
      | Inr None \<Rightarrow> Inl UnboundLocalError_resreg
      | Inr (Some (resreg0, Jreg0)) \<Rightarrow>
          (let resreg = scale_vec alpha resreg0;
               Jreg = scale_mat alpha Jreg0;
               res' = res @ resreg
           in if np_size J \<noteq> 0 then
                and_then (hconcat (replicate (length L) (replicate Nnonlin 0)) Jreg)
                  (\<lambda>Jreg'. and_then (vconcat J Jreg') (\<lambda>J'. Inr (res', J')))
              else Inr (res', J)))"

subsection \<open>Arguments, collaborators and local variables of snlls\<close>

text \<open>\<^verbatim>\<open>regparam\<close> is the name of a selection method or a number
  (\<^verbatim>\<open>type(regparam) is str\<close>).\<close>

datatype regparam_val = Method string | Fixed real

text \<open>
  The parameters of \<^verbatim>\<open>snlls\<close>, under their names. \<^verbatim>\<open>y\<close>, \<^verbatim>\<open>Amodel\<close> and
  \<^verbatim>\<open>weights\<close> stand for what \<^verbatim>\<open>dl.utils.parse_multidatasets\<close> returns for them,
  and \<^verbatim>\<open>subsets\<close> for its fourth result. \<^verbatim>\<open>penalty\<close> is \<^verbatim>\<open>None\<close>, \<^verbatim>\<open>True\<close> or
  \<^verbatim>\<open>False\<close>; \<^verbatim>\<open>nonLinMaxIter\<close> is the value of \<^verbatim>\<open>int(nonLinMaxIter)\<close>.
\<close>

record snlls_args =
  y :: vec
  Amodel :: "vec \<Rightarrow> matrix"
  par0 :: vec
  lb :: "xfloat list"
  ub :: "xfloat list"
  lbl :: "xfloat list"
  ubl :: "xfloat list"
  nnlsSolver :: pystr
  penalty :: "bool option"
  weights :: vec
  regtype :: pystr
  regparam :: regparam_val
  multiStarts :: int
  regOrder :: int
  alphaOptThreshold :: real
  nonLinTolFun :: real
  nonLinMaxIter :: int
  linTolFun :: real
  linMaxIter :: int
  huberparam :: real
  uqanalysis :: bool
  subsets :: "nat list list"

text \<open>The default values of the signature, lines 13 to 16, for given \<^verbatim>\<open>y\<close>,
  \<^verbatim>\<open>Amodel\<close> and \<^verbatim>\<open>par0\<close>; the scalar weight 1 is the array \<open>[1]\<close>.\<close>

definition default_args :: "vec \<Rightarrow> (vec \<Rightarrow> matrix) \<Rightarrow> vec \<Rightarrow> nat list list \<Rightarrow> snlls_args" where
  "default_args yv Am p0 subs =
     \<lparr>y = yv, Amodel = Am, par0 = p0, lb = [], ub = [], lbl = [], ubl = [],
      nnlsSolver = Lit ''cvx'', penalty = None, weights = [1],
      regtype = Lit ''tikhonov'', regparam = Method ''aic'', multiStarts = 1, regOrder = 2,
      alphaOptThreshold = 1 / 10 ^ 3, nonLinTolFun = 1 / 10 ^ 9, nonLinMaxIter = 10 ^ 8,
      linTolFun = 1 / 10 ^ 15, linMaxIter = 10 ^ 4, huberparam = 1.35,
      uqanalysis = True, subsets = subs\<rparr>"

text \<open>
  The collaborators. \<^verbatim>\<open>least_squares\<close> calls its objective back; all that the model
  fixes of it is this protocol: from the start vector, the bounds, \<^verbatim>\<open>max_nfev\<close>,
  \<^verbatim>\<open>ftol\<close> and the evaluations made so far (each a point with the residual returned
  for it), \<open>lsq_next\<close> names the next point to evaluate or stops, \<open>lsq_result\<close> gives
  \<^verbatim>\<open>(sol.x, sol.cost)\<close>, and \<open>lsq_budget\<close> bounds the number of callbacks of one
  run. \<open>lsq_linear\<close> stands for \<^verbatim>\<open>lsq_linear(...).x\<close>, \<open>jacobianest\<close> for the first
  component of its result, \<open>uqst_ci\<close> for the method \<^verbatim>\<open>ci\<close> of the object that
  \<^verbatim>\<open>dl.uqst('covariance', ...)\<close> returns, and \<open>hccm\<close> for \<^verbatim>\<open>hccm(J,res,'HC1')\<close>.
\<close>

record 'g env =
  np_cond :: "matrix \<Rightarrow> xfloat"
  regoperator :: "vec \<Rightarrow> int \<Rightarrow> matrix"
  np_solve :: "matrix \<Rightarrow> vec \<Rightarrow> vec"
  lsq_linear :: "matrix \<Rightarrow> vec \<Rightarrow> xfloat list \<Rightarrow> xfloat list \<Rightarrow> vec"
  fnnls :: "matrix \<Rightarrow> vec \<Rightarrow> real \<Rightarrow> vec"
  nnlsbpp :: "matrix \<Rightarrow> vec \<Rightarrow> vec \<Rightarrow> vec"
  cvxnnls :: "matrix \<Rightarrow> vec \<Rightarrow> real \<Rightarrow> vec"
  selregparam :: "vec \<Rightarrow> matrix \<Rightarrow> vec \<Rightarrow> pystr \<Rightarrow> string \<Rightarrow> int \<Rightarrow> real"
  lsqcomponents :: "vec \<Rightarrow> matrix \<Rightarrow> matrix \<Rightarrow> real \<Rightarrow> vec \<Rightarrow> pystr \<Rightarrow> matrix \<times> vec"
  multistarts :: "int \<Rightarrow> vec \<Rightarrow> xfloat list \<Rightarrow> xfloat list \<Rightarrow> vec list"
  lsq_next ::
    "vec \<Rightarrow> xfloat list \<Rightarrow> xfloat list \<Rightarrow> int \<Rightarrow> real \<Rightarrow> (vec \<times> vec) list \<Rightarrow> vec option"
  lsq_result ::
    "vec \<Rightarrow> xfloat list \<Rightarrow> xfloat list \<Rightarrow> int \<Rightarrow> real \<Rightarrow> (vec \<times> vec) list \<Rightarrow> vec \<times> real"
  lsq_budget :: nat
  jacobianest :: "(vec \<Rightarrow> error + vec) \<Rightarrow> vec \<Rightarrow> matrix"
  hccm :: "matrix \<Rightarrow> vec \<Rightarrow> matrix"
  uqst_ci :: "vec \<Rightarrow> matrix \<Rightarrow> xfloat list \<Rightarrow> xfloat list \<Rightarrow> real \<Rightarrow> matrix"
  goodness_of_fit :: "vec \<Rightarrow> vec \<Rightarrow> int \<Rightarrow> 'g"

text \<open>The linear solver that the dispatch binds to \<^verbatim>\<open>linSolver\<close> (with its
  \<^verbatim>\<open>parseResult\<close>).\<close>

datatype linsolver = Solve | LsqLinear | Fnnls | Nnlsbpp | Cvxnnls

text \<open>The local variables of \<^verbatim>\<open>snlls\<close> that the later code and the closures read,
  beside the parameters.\<close>

record frame =
  Nnonlin :: nat
  Nlin :: nat
  includePenalty :: "bool option"
  L :: matrix
  ax :: vec
  linSolver :: "linsolver option"

text \<open>The variables that \<^verbatim>\<open>ResidualsFcn\<close> declares \<^verbatim>\<open>nonlocal\<close>, and the record of
  the calls made to the selection procedure, the linear solver and the non-linear
  solver.\<close>

datatype call = Call_selregparam | Call_linSolver | Call_least_squares

record istate =
  par_prev :: vec
  check :: bool
  regparam_prev :: real
  linfit :: vec
  trace :: "call list"

subsection \<open>Set-up: penalty, bounds, constraints, linear solver\<close>

text \<open>What \<^verbatim>\<open>if includePenalty:\<close> tests: \<^verbatim>\<open>None\<close> and \<^verbatim>\<open>False\<close> are false.\<close>

definition truthy :: "bool option \<Rightarrow> bool" where
  "truthy b = (b = Some True)"

definition any2 :: "('a \<Rightarrow> 'b \<Rightarrow> bool) \<Rightarrow> 'a list \<Rightarrow> 'b list \<Rightarrow> bool" where
  "any2 P xs ys = list_ex (\<lambda>(u, v). P u v) (zip xs ys)"

definition default_bounds :: "xfloat list \<Rightarrow> nat \<Rightarrow> xfloat \<Rightarrow> xfloat list" where
  "default_bounds b n v = (if b = [] then replicate n v else b)"

definition nonLinearConstrained :: "xfloat list \<Rightarrow> xfloat list \<Rightarrow> bool" where
  "nonLinearConstrained lo hi = (\<not> list_all isinf lo \<or> \<not> list_all isinf hi)"

definition linearConstrained :: "xfloat list \<Rightarrow> xfloat list \<Rightarrow> bool" where
  "linearConstrained lo hi = (\<not> list_all isinf lo \<or> \<not> list_all isinf hi)"

definition nonNegativeOnly :: "xfloat list \<Rightarrow> xfloat list \<Rightarrow> bool" where
  "nonNegativeOnly lo hi = (list_all (\<lambda>b. b = Val 0) lo \<and> list_all isinf hi)"

definition eye :: "nat \<Rightarrow> matrix" where
  "eye n = map (\<lambda>i. map (\<lambda>j. if i = j then 1 else 0) [0..<n]) [0..<n]"

definition arange1 :: "nat \<Rightarrow> vec" where
  "arange1 n = map real [1..<n + 1]"

text \<open>The dispatch of lines 171 to 189. In the third branch an \<^verbatim>\<open>nnlsSolver\<close> that
  is none of the three literals leaves \<^verbatim>\<open>linSolver\<close> unbound.\<close>

definition choose_linSolver :: "bool \<Rightarrow> bool \<Rightarrow> pystr \<Rightarrow> linsolver option" where
  "choose_linSolver linCon nonNeg solver =
     (if \<not> linCon then Some Solve
      else if linCon \<and> \<not> nonNeg then Some LsqLinear
      else if linCon \<and> nonNeg then
        (if py_is solver ''fnnls'' then Some Fnnls
         else if py_is solver ''nnlsbpp'' then Some Nnlsbpp
         else if py_is solver ''cvx'' then Some Cvxnnls
         else None)
      else None)"

definition run_linSolver :: "'g env \<Rightarrow> snlls_args \<Rightarrow> linsolver \<Rightarrow> matrix \<Rightarrow> vec \<Rightarrow> vec" where
  "run_linSolver E a k AtA Aty =
     (case k of
        Solve \<Rightarrow> np_solve E AtA Aty
      | LsqLinear \<Rightarrow> lsq_linear E AtA Aty (lbl a) (ubl a)
      | Fnnls \<Rightarrow> fnnls E AtA Aty (linTolFun a)
      | Nnlsbpp \<Rightarrow> nnlsbpp E AtA Aty (np_solve E AtA Aty)
      | Cvxnnls \<Rightarrow> cvxnnls E AtA Aty (linTolFun a))"

text \<open>
  Lines 112 to 189. The result holds the parameters, with \<^verbatim>\<open>lb\<close>, \<^verbatim>\<open>ub\<close>, \<^verbatim>\<open>lbl\<close>,
  \<^verbatim>\<open>ubl\<close> and \<^verbatim>\<open>regOrder\<close> rebound as the source rebinds them, and the new local
  variables. Past the checks on the numbers of bounds the compared arrays have one
  length.
\<close>

definition snlls_setup :: "'g env \<Rightarrow> snlls_args \<Rightarrow> error + (snlls_args \<times> frame)" where
  "snlls_setup E a =
     (let A0 = Amodel a (par0 a);
          Nnonlin' = length (par0 a);
          Nlin' = ncols A0;
          illConditioned = xless (Val 10) (np_cond E A0);
          includePenalty' = (if illConditioned \<and> penalty a = None then Some True else penalty a);
          lb' = default_bounds (lb a) Nnonlin' MinusInf;
          ub' = default_bounds (ub a) Nnonlin' PlusInf;
          lbl' = default_bounds (lbl a) Nlin' MinusInf;
          ubl' = default_bounds (ubl a) Nlin' PlusInf
      in if length lb' \<noteq> Nnonlin' \<or> length ub' \<noteq> Nnonlin' then
           Inl (TypeError_nonlin_bounds Nnonlin')
         else if length lbl' \<noteq> Nlin' \<or> length ubl' \<noteq> Nlin' then
           Inl (TypeError_lin_bounds Nlin')
         else if any2 xless ub' lb' \<or> any2 xless ubl' lbl' then
           Inl ValueError_bounds
         else if any2 (\<lambda>p u. xless u (Val p)) (par0 a) ub'
               \<or> any2 (\<lambda>p l. xless (Val p) l) (par0 a) lb' then
           Inl ValueError_start
         else
           (let ax' = (if truthy includePenalty' then arange1 Nlin' else []);
                regOrder' = (if truthy includePenalty' then min (int Nlin' - 1) (regOrder a)
                             else regOrder a);
                L' = (if truthy includePenalty' then regoperator E ax' regOrder' else eye Nlin')
            in Inr (a\<lparr>lb := lb', ub := ub', lbl := lbl', ubl := ubl', regOrder := regOrder'\<rparr>,
                    \<lparr>Nnonlin = Nnonlin', Nlin = Nlin', includePenalty = includePenalty',
                     L = L', ax = ax',
                     linSolver = choose_linSolver (linearConstrained lbl' ubl')
                                   (nonNegativeOnly lbl' ubl') (nnlsSolver a)\<rparr>)))"

text \<open>Lines 192 to 195 and 115: the closure's variables as \<^verbatim>\<open>snlls\<close> initialises
  them, once.\<close>

definition init_state :: "frame \<Rightarrow> istate" where
  "init_state loc =
     \<lparr>par_prev = replicate (Nnonlin loc) 0, check = False, regparam_prev = 0,
      linfit = replicate (Nlin loc) 0, trace = []\<rparr>"

subsection \<open>The objective of the non-linear solver\<close>

text \<open>
  \<^verbatim>\<open>all(abs(par_prev-p)/p < alphaOptThreshold)\<close>. The division is by the new vector
  \<open>p\<close>. For a component of \<open>p\<close> that is zero numpy yields an infinity or NaN, and the
  comparison is false.
\<close>

definition rel_change_small :: "real \<Rightarrow> vec \<Rightarrow> vec \<Rightarrow> error + bool" where
  "rel_change_small thr pprev p =
     and_then (broadcast (\<lambda>q pi. pi \<noteq> 0 \<and> \<bar>q - pi\<bar> / pi < thr) pprev p)
       (\<lambda>bs. Inr (list_all (\<lambda>b. b) bs))"

text \<open>Lines 210 to 230: the regularization parameter of this call, and the update of
  the cache. \<^verbatim>\<open>check and all(...)\<close> does not evaluate its second operand when
  \<^verbatim>\<open>check\<close> is false.\<close>

definition alpha_step ::
  "'g env \<Rightarrow> snlls_args \<Rightarrow> frame \<Rightarrow> istate \<Rightarrow> vec \<Rightarrow> matrix \<Rightarrow> istate \<times> (error + real)" where
  "alpha_step E a loc s p A =
     (if truthy (includePenalty loc) then
        (case (case regparam a of
                 Method meth \<Rightarrow>
                   (case (if check s then rel_change_small (alphaOptThreshold a) (par_prev s) p
                          else Inr False) of
                      Inl e \<Rightarrow> (s, Inl e)
                    | Inr True \<Rightarrow> (s, Inr (regparam_prev s))
                    | Inr False \<Rightarrow>
                        (s\<lparr>check := True, trace := trace s @ [Call_selregparam]\<rparr>,
                         Inr (selregparam E (y a) A (ax loc) (regtype a) meth (regOrder a))))
               | Fixed v \<Rightarrow> (s, Inr v)) of
           (s1, Inl e) \<Rightarrow> (s1, Inl e)
         | (s1, Inr alpha) \<Rightarrow> (s1\<lparr>par_prev := p, regparam_prev := alpha\<rparr>, Inr alpha))
      else (s, Inr 0))"

text \<open>
  \<^verbatim>\<open>ResidualsFcn(p)\<close>, lines 197 to 249: from the state before the call to the state
  after it, with the residual vector or the error raised. \<^verbatim>\<open>alpha*L@linfit\<close> is
  \<^verbatim>\<open>(alpha*L)@linfit\<close>.
\<close>

definition ResidualsFcn ::
  "'g env \<Rightarrow> snlls_args \<Rightarrow> frame \<Rightarrow> istate \<Rightarrow> vec \<Rightarrow> istate \<times> (error + vec)" where
  "ResidualsFcn E a loc s p =
     (let A = Amodel a p in
      case alpha_step E a loc s p A of
        (s1, Inl e) \<Rightarrow> (s1, Inl e)
      | (s1, Inr alpha) \<Rightarrow>
          (case lsqcomponents E (y a) A (L loc) alpha (weights a) (regtype a) of
             (AtA, Aty) \<Rightarrow>
               (case linSolver loc of
                  None \<Rightarrow> (s1, Inl NameError_linSolver)
                | Some k \<Rightarrow>
                    (let x = run_linSolver E a k AtA Aty;
                         s2 = s1\<lparr>linfit := x, trace := trace s1 @ [Call_linSolver]\<rparr>
                     in (s2,
                         and_then (matvec A x) (\<lambda>yfit.
                         and_then (broadcast (-) yfit (y a)) (\<lambda>res.
                           if truthy (includePenalty loc) then
                             and_then (matvec (scale_mat alpha (L loc)) x) (\<lambda>pen.
                             and_then (augment (res @ pen) [] (regtype a) alpha (L loc) x
                                         (huberparam a) (Nnonlin loc))
                               (\<lambda>(res', _). Inr res'))
                           else Inr res)))))))"

subsection \<open>The non-linear solver and the multi-start loop\<close>

text \<open>One run of \<^verbatim>\<open>least_squares\<close> on an objective \<open>f\<close> that threads a state: the
  solver asks for evaluations until it stops or its budget is spent, and an error of
  the objective ends the run.\<close>

fun lsq_run ::
  "nat \<Rightarrow> ((vec \<times> vec) list \<Rightarrow> vec option) \<Rightarrow> ((vec \<times> vec) list \<Rightarrow> vec \<times> real) \<Rightarrow>
   ('s \<Rightarrow> vec \<Rightarrow> 's \<times> (error + vec)) \<Rightarrow> (vec \<times> vec) list \<Rightarrow> 's \<Rightarrow> 's \<times> (error + vec \<times> real)" where
  "lsq_run 0 nxt fin f h s = (s, Inr (fin h))"
| "lsq_run (Suc n) nxt fin f h s =
     (case nxt h of
        None \<Rightarrow> (s, Inr (fin h))
      | Some p \<Rightarrow>
          (case f s p of
             (s', Inl e) \<Rightarrow> (s', Inl e)
           | (s', Inr r) \<Rightarrow> lsq_run n nxt fin f (h @ [(p, r)]) s'))"

text \<open>\<^verbatim>\<open>least_squares(ResidualsFcn, par0, bounds=(lb,ub), max_nfev=int(nonLinMaxIter),
  ftol=nonLinTolFun)\<close>, line 264, started in the state \<open>s\<close>.\<close>

definition least_squares ::
  "'g env \<Rightarrow> snlls_args \<Rightarrow> frame \<Rightarrow> vec \<Rightarrow> istate \<Rightarrow> istate \<times> (error + vec \<times> real)" where
  "least_squares E a loc seed s =
     lsq_run (lsq_budget E)
       (lsq_next E seed (lb a) (ub a) (nonLinMaxIter a) (nonLinTolFun a))
       (lsq_result E seed (lb a) (ub a) (nonLinMaxIter a) (nonLinTolFun a))
       (ResidualsFcn E a loc) [] (s\<lparr>trace := trace s @ [Call_least_squares]\<rparr>)"

text \<open>The loop of lines 262 to 267 over the start vectors, with the three containers
  \<^verbatim>\<open>fvals\<close>, \<^verbatim>\<open>nonlinfits\<close> and \<^verbatim>\<open>linfits\<close>. The state of the closure goes from one
  pass to the next: nothing in the loop assigns to it.\<close>

fun multistart_loop ::
  "'g env \<Rightarrow> snlls_args \<Rightarrow> frame \<Rightarrow> vec list \<Rightarrow> istate \<Rightarrow> real list \<times> vec list \<times> vec list \<Rightarrow>
   istate \<times> (error + real list \<times> vec list \<times> vec list)" where
  "multistart_loop E a loc [] s acc = (s, Inr acc)"
| "multistart_loop E a loc (seed # seeds) s (fvals, nonlinfits, linfits) =
     (case least_squares E a loc seed s of
        (s', Inl e) \<Rightarrow> (s', Inl e)
      | (s', Inr (solx, cost)) \<Rightarrow>
          multistart_loop E a loc seeds s'
            (fvals @ [cost], nonlinfits @ [solx], linfits @ [linfit s']))"

text \<open>\<^verbatim>\<open>np.argmin\<close>: the index of the first occurrence of the minimum; it raises on an
  empty sequence.\<close>

fun argmin_from :: "real \<Rightarrow> nat \<Rightarrow> nat \<Rightarrow> real list \<Rightarrow> nat" where
  "argmin_from best bi i [] = bi"
| "argmin_from best bi i (v # vs) =
     (if v < best then argmin_from v i (Suc i) vs else argmin_from best bi (Suc i) vs)"

definition argmin :: "real list \<Rightarrow> error + nat" where
  "argmin vs = (case vs of [] \<Rightarrow> Inl ValueError_argmin_empty | v # rest \<Rightarrow> Inr (argmin_from v 0 1 rest))"

definition index :: "'a list \<Rightarrow> nat \<Rightarrow> error + 'a" where
  "index xs i = (if i < length xs then Inr (xs ! i) else Inl IndexError)"

definition take_indices :: "'a list \<Rightarrow> nat list \<Rightarrow> error + 'a list" where
  "take_indices xs idx =
     (if list_all (\<lambda>i. i < length xs) idx then Inr (map (\<lambda>i. xs ! i) idx) else Inl IndexError)"

subsection \<open>Uncertainty, statistics and the result\<close>

text \<open>
  The wrapper \<^verbatim>\<open>ci(coverage,type='full')\<close> of lines 302 to 313, over the method
  \<^verbatim>\<open>paramuq_.ci\<close>. \<^verbatim>\<open>paramci[range(Nnonlin),:]\<close> raises when there are fewer
  than \<^verbatim>\<open>Nnonlin\<close> rows; the slice \<^verbatim>\<open>paramci[Nnonlin:,:]\<close> does not raise.
\<close>

definition ci :: "(real \<Rightarrow> matrix) \<Rightarrow> nat \<Rightarrow> real \<Rightarrow> string \<Rightarrow> error + matrix" where
  "ci paramuq_ci W coverage type =
     (let paramci = paramuq_ci coverage
      in if type = ''nonlin'' then
           (if W \<le> length paramci then Inr (take W paramci) else Inl IndexError)
         else if type = ''lin'' then Inr (drop W paramci)
         else Inr paramci)"

datatype 'g stats_out = One_stat 'g | Stat_list "'g list"

text \<open>The loop of lines 322 to 327 over the subsets.\<close>

fun subset_stats :: "'g env \<Rightarrow> vec \<Rightarrow> vec \<Rightarrow> nat \<Rightarrow> nat list list \<Rightarrow> error + 'g list" where
  "subset_stats E yv yfit W [] = Inr []"
| "subset_stats E yv yfit W (sub # rest) =
     and_then (take_indices yv sub) (\<lambda>ys.
     and_then (take_indices yfit sub) (\<lambda>yfits.
     and_then (subset_stats E yv yfit W rest) (\<lambda>others.
       Inr (goodness_of_fit E ys yfits (int (length ys) - int W) # others))))"

text \<open>Lines 269 to 329: the choice of the run, the uncertainty analysis, the
  statistics and the returned tuple \<^verbatim>\<open>(nonlinfit, linfit, paramuq, stats)\<close>, where
  \<^verbatim>\<open>paramuq\<close> is given by its method \<^verbatim>\<open>ci\<close>, or is \<open>None\<close> for \<^verbatim>\<open>[]\<close>.\<close>

definition snlls_finish ::
  "'g env \<Rightarrow> snlls_args \<Rightarrow> frame \<Rightarrow> istate \<Rightarrow> real list \<Rightarrow> vec list \<Rightarrow> vec list \<Rightarrow>
   error + (vec \<times> vec \<times> (real \<Rightarrow> string \<Rightarrow> error + matrix) option \<times> 'g stats_out)" where
  "snlls_finish E a loc s fvals nonlinfits linfits =
     and_then (argmin fvals) (\<lambda>globmin.
     and_then (index linfits globmin) (\<lambda>linfit'.
     and_then (index nonlinfits globmin) (\<lambda>nonlinfit.
     let Afit = Amodel a nonlinfit in
     and_then (matvec Afit linfit') (\<lambda>yfit.
     and_then
       (if uqanalysis a then
          and_then (broadcast (-) yfit (y a)) (\<lambda>d.
          and_then (broadcast (*) (weights a) d) (\<lambda>res.
          let Jnonlin = jacobianest E (\<lambda>p. matvec (Amodel a p) linfit') nonlinfit;
              Jlin = Afit
          in and_then (hconcat Jnonlin Jlin) (\<lambda>J.
             and_then (augment res J (regtype a) (regparam_prev s) (L loc) linfit'
                         (huberparam a) (Nnonlin loc)) (\<lambda>(res', J').
             let covmatrix = hccm E J' res';
                 parfit = nonlinfit @ linfit';
                 lbs = lb a @ lbl a;
                 ubs = ub a @ ubl a
             in Inr (Some (ci (uqst_ci E parfit covmatrix lbs ubs) (Nnonlin loc)))))))
        else Inr None) (\<lambda>paramuq.
     and_then (subset_stats E (y a) yfit (Nnonlin loc) (subsets a)) (\<lambda>stats.
       Inr (nonlinfit, linfit', paramuq,
            (case stats of [st] \<Rightarrow> One_stat st | _ \<Rightarrow> Stat_list stats))))))))"

text \<open>
  \<^verbatim>\<open>snlls\<close>: the calls made to the solvers, and the returned tuple or the error
  raised. The test of line 254 precedes the generation of the start vectors.
\<close>

definition snlls ::
  "'g env \<Rightarrow> snlls_args \<Rightarrow>
   call list \<times> (error + (vec \<times> vec \<times> (real \<Rightarrow> string \<Rightarrow> error + matrix) option \<times> 'g stats_out))" where
  "snlls E a0 =
     (case snlls_setup E a0 of
        Inl e \<Rightarrow> ([], Inl e)
      | Inr (a, loc) \<Rightarrow>
          if 1 < multiStarts a \<and> \<not> nonLinearConstrained (lb a) (ub a) then
            ([], Inl TypeError_multistart)
          else
            (case multistart_loop E a loc (multistarts E (multiStarts a) (par0 a) (lb a) (ub a))
                    (init_state loc) ([], [], []) of
               (s, Inl e) \<Rightarrow> (trace s, Inl e)
             | (s, Inr (fvals, nonlinfits, linfits)) \<Rightarrow>
                 (trace s, snlls_finish E a loc s fvals nonlinfits linfits)))"

subsection \<open>A small problem to evaluate the definitions on\<close>

text \<open>
  One non-linear parameter \<open>p\<close>, one linear parameter \<open>x\<close>, two data points:
  \<open>A(p)\<close> has the rows \<open>[p]\<close> and \<open>[1]\<close>. The collaborators are the simplest
  functions of the right kind: the normal equations of the regularized problem for
  one column, their solution by division, a selection procedure that returns the
  top left entry of \<open>A\<close>, a non-linear solver that evaluates its objective at the
  start vector and stops there with the cost \<open>0.5 * sum(res**2)\<close>, and two start
  vectors, \<^verbatim>\<open>par0\<close> and \<^verbatim>\<open>par0 + 1\<close>. The non-linear parameter is bounded below
  and not above; the linear parameter is not constrained.
\<close>

definition demo_Amodel :: "vec \<Rightarrow> matrix" where
  "demo_Amodel p = [[sum_list p], [1]]"

definition demo_env :: "int env" where
  "demo_env =
     \<lparr>np_cond = (\<lambda>A. Val 20),
      regoperator = (\<lambda>axis order. [[1]]),
      np_solve = (\<lambda>AtA Aty. [sum_list Aty / sum_list (concat AtA)]),
      lsq_linear = (\<lambda>AtA Aty lo hi. [sum_list Aty / sum_list (concat AtA)]),
      fnnls = (\<lambda>AtA Aty tol. [max 0 (sum_list Aty / sum_list (concat AtA))]),
      nnlsbpp = (\<lambda>AtA Aty x0. [max 0 (sum_list Aty / sum_list (concat AtA))]),
      cvxnnls = (\<lambda>AtA Aty tol. [max 0 (sum_list Aty / sum_list (concat AtA))]),
      selregparam = (\<lambda>yv A axis rt meth order. sum_list (concat (take 1 A))),
      lsqcomponents = (\<lambda>yv A Lm alpha w rt.
         ([[dot (concat A) (concat A) + alpha ^ 2 * dot (concat Lm) (concat Lm)]],
          [dot (concat A) yv])),
      multistarts = (\<lambda>n p0 lo hi. if n \<le> 1 then [p0] else [p0, map (\<lambda>v. v + 1) p0]),
      lsq_next = (\<lambda>x0 lo hi maxnfev ftol h. if h = [] then Some x0 else None),
      lsq_result = (\<lambda>x0 lo hi maxnfev ftol h.
         (x0, 0.5 * sum_list (map (\<lambda>r. r ^ 2) (concat (map snd h))))),
      lsq_budget = 3,
      jacobianest = (\<lambda>f x. [[0], [0]]),
      hccm = (\<lambda>J res. eye (ncols J)),
      uqst_ci = (\<lambda>parfit cov lo hi coverage. map (\<lambda>v. [v - coverage, v + coverage]) parfit),
      goodness_of_fit = (\<lambda>ys yfits ndof. ndof)\<rparr>"

definition demo_args :: snlls_args where
  "demo_args =
     \<lparr>y = [1, 2], Amodel = demo_Amodel, par0 = [2000],
      lb = [Val 0], ub = [PlusInf], lbl = [], ubl = [],
      nnlsSolver = Lit ''cvx'', penalty = None, weights = [1],
      regtype = Lit ''tikhonov'', regparam = Method ''aic'', multiStarts = 2, regOrder = 2,
      alphaOptThreshold = 1 / 1000, nonLinTolFun = 1 / 10 ^ 9, nonLinMaxIter = 10 ^ 8,
      linTolFun = 1 / 10 ^ 15, linMaxIter = 10 ^ 4, huberparam = 1.35,
      uqanalysis = True, subsets = [[0, 1]]\<rparr>"

definition demo_frame :: frame where
  "demo_frame =
     \<lparr>Nnonlin = 1, Nlin = 1, includePenalty = Some True, L = [[1]], ax = [1],
      linSolver = Some Solve\<rparr>"

subsection \<open>The penalty terms as the specification writes them\<close>

text \<open>
  The penalty residual for one entry \<open>r\<close> of \<open>L x\<close>, and the row of the penalty
  Jacobian for that entry and the matching row of \<open>L\<close>, as section 4.2 of the
  specification gives them for the three penalty types.
\<close>

definition spec_penaltyResidual :: "string \<Rightarrow> real \<Rightarrow> real \<Rightarrow> real \<Rightarrow> real" where
  "spec_penaltyResidual rt alpha eta r =
     (if rt = ''tikhonov'' then alpha * r
      else if rt = ''tv'' then alpha * (r ^ 2 + eps) powr (1 / 4)
      else alpha * sqrt (sqrt ((r / eta) ^ 2 + 1) - 1))"

definition spec_penaltyJacobian :: "string \<Rightarrow> real \<Rightarrow> real \<Rightarrow> real \<Rightarrow> vec \<Rightarrow> vec" where
  "spec_penaltyJacobian rt alpha eta r Lrow =
     (if rt = ''tikhonov'' then map (\<lambda>l. alpha * l) Lrow
      else if rt = ''tv'' then
        map (\<lambda>l. alpha * (1 / 2) * (r ^ 2 + eps) powr (- 3 / 4) * r * l) Lrow
      else
        map (\<lambda>l. alpha * (1 / (2 * eta ^ 2))
                   * (sqrt ((r / eta) ^ 2 + 1) - 1 + eps) powr (- 1 / 2)
                   * ((r / eta) ^ 2 + 1 + eps) powr (- 1 / 2) * r * l) Lrow)"

section \<open>Properties\<close>

subsection \<open>Auxiliary facts\<close>

lemma and_then_simps [simp]:
  "and_then (Inl e) f = Inl e" "and_then (Inr v) f = f v"
  by (simp_all add: and_then_def)

lemma and_then_Inr_iff: "and_then m f = Inr v \<longleftrightarrow> (\<exists>u. m = Inr u \<and> f u = Inr v)"
  by (cases m) simp_all

lemma any2_nth:
  "length xs = length ys \<Longrightarrow> any2 P xs ys \<longleftrightarrow> (\<exists>i<length xs. P (xs ! i) (ys ! i))"
  by (auto simp: any2_def list_ex_iff set_zip)

lemma length_default_bounds:
  "length (default_bounds b n v) = n \<longleftrightarrow> (b = [] \<or> length b = n)"
  by (auto simp: default_bounds_def)

lemma matvec_length: "matvec A x = Inr r \<Longrightarrow> length r = length A"
  by (auto simp: matvec_def split: if_splits)

lemma map2_replicate_append:
  "length B = n \<Longrightarrow> map2 (@) (replicate n z) B = map (\<lambda>row. z @ row) B"
  by (induction B arbitrary: n) auto

lemma scale_rows_map:
  "scale_mat c (scale_mat d (scale_rows (map f r) B)) =
     map2 (\<lambda>ri row. map (\<lambda>l. c * (d * (f ri * l))) row) r B"
  by (simp add: scale_mat_def scale_rows_def scale_vec_def zip_map1 comp_def case_prod_unfold)

lemma scale_mat_id_map2:
  "length r = length B \<Longrightarrow> scale_mat c B = map2 (\<lambda>ri row. map (\<lambda>l. c * l) row) r B"
  by (induction r B rule: list_induct2) (auto simp: scale_mat_def scale_vec_def)

text \<open>What a successful set-up has bound.\<close>

lemma snlls_setup_Inr:
  assumes "snlls_setup E a0 = Inr (a, loc)"
  shows "Nnonlin loc = length (par0 a0)"
    and "Nlin loc = ncols (Amodel a0 (par0 a0))"
    and "includePenalty loc =
          (if xless (Val 10) (np_cond E (Amodel a0 (par0 a0))) \<and> penalty a0 = None then Some True
           else penalty a0)"
    and "lb a = default_bounds (lb a0) (length (par0 a0)) MinusInf"
    and "ub a = default_bounds (ub a0) (length (par0 a0)) PlusInf"
    and "lbl a = default_bounds (lbl a0) (ncols (Amodel a0 (par0 a0))) MinusInf"
    and "ubl a = default_bounds (ubl a0) (ncols (Amodel a0 (par0 a0))) PlusInf"
    and "linSolver loc = choose_linSolver (linearConstrained (lbl a) (ubl a))
           (nonNegativeOnly (lbl a) (ubl a)) (nnlsSolver a0)"
    and "par0 a = par0 a0" and "multiStarts a = multiStarts a0"
  using assms by (auto simp: snlls_setup_def Let_def split: if_splits)

text \<open>The set-up of the small problem, with a penalty chosen by the condition number
  and with the penalty forbidden.\<close>

lemmas setup_defs = snlls_setup_def and_then_def ncols_def truthy_def any2_def default_bounds_def
  linearConstrained_def nonNegativeOnly_def eye_def arange1_def
  choose_linSolver_def py_is_def demo_env_def demo_args_def demo_Amodel_def Let_def

lemma demo_setup:
  "snlls_setup demo_env demo_args =
     Inr (demo_args\<lparr>lbl := [MinusInf], ubl := [PlusInf], regOrder := 0\<rparr>, demo_frame)"
  by (simp add: setup_defs demo_frame_def)

lemma demo_setup_no_penalty:
  "snlls_setup demo_env (demo_args\<lparr>penalty := Some False\<rparr>) =
     Inr (demo_args\<lparr>penalty := Some False, lbl := [MinusInf], ubl := [PlusInf]\<rparr>,
          demo_frame\<lparr>includePenalty := Some False, ax := []\<rparr>)"
  by (simp add: setup_defs demo_frame_def)

subsection \<open>The conditioning gate\<close>

text \<open>
  C3. The penalty is included exactly when the caller passed \<^verbatim>\<open>penalty=True\<close>, or
  passed \<^verbatim>\<open>penalty=None\<close> and the condition number of \<open>A0 = Amodel(par0)\<close> exceeds
  10. So it is enabled automatically exactly for an ill-conditioned \<open>A0\<close> with
  \<^verbatim>\<open>penalty=None\<close>; \<^verbatim>\<open>penalty=False\<close> disables it and \<^verbatim>\<open>penalty=True\<close> enables it,
  whatever the condition number.
\<close>

theorem penalty_gate:
  assumes "snlls_setup E a0 = Inr (a, loc)"
  shows "truthy (includePenalty loc) \<longleftrightarrow>
           penalty a0 = Some True
           \<or> (penalty a0 = None \<and> xless (Val 10) (np_cond E (Amodel a0 (par0 a0))))"
  using snlls_setup_Inr(3) [OF assms] by (auto simp: truthy_def)

theorem penalty_gate_witness:
  "(case snlls_setup demo_env demo_args of
      Inr (a, loc) \<Rightarrow> truthy (includePenalty loc) | Inl e \<Rightarrow> False)
   \<and> penalty demo_args = None
   \<and> xless (Val 10) (np_cond demo_env (Amodel demo_args (par0 demo_args)))
   \<and> (case snlls_setup demo_env (demo_args\<lparr>penalty := Some False\<rparr>) of
         Inr (a, loc) \<Rightarrow> \<not> truthy (includePenalty loc) | Inl e \<Rightarrow> False)"
proof -
  have "penalty demo_args = None"
    by (simp add: demo_args_def)
  moreover have "xless (Val 10) (np_cond demo_env (Amodel demo_args (par0 demo_args)))"
    by (simp add: demo_env_def)
  moreover have "penalty (demo_args\<lparr>penalty := Some False\<rparr>) = Some False"
    by simp
  ultimately show ?thesis
    using penalty_gate [OF demo_setup] penalty_gate [OF demo_setup_no_penalty]
    by (simp add: demo_setup demo_setup_no_penalty)
qed

subsection \<open>The augmentation\<close>

lemma penalty_terms_spec:
  assumes "rt = ''tikhonov'' \<or> rt = ''tv'' \<or> rt = ''huber''"
    and "matvec B x = Inr r"
    and "rt = ''huber'' \<longrightarrow> eta \<noteq> 0"
  shows "\<exists>res0 J0. penalty_terms (Lit rt) B x eta = Inr (Some (res0, J0))
           \<and> scale_vec alpha res0 = map (spec_penaltyResidual rt alpha eta) r
           \<and> scale_mat alpha J0 = map2 (spec_penaltyJacobian rt alpha eta) r B"
  using assms(1)
proof (elim disjE)
  assume "rt = ''tikhonov''"
  then show ?thesis
    using assms(2) scale_mat_id_map2 [OF matvec_length [OF assms(2)], of alpha]
    by (simp add: penalty_terms_def py_is_def spec_penaltyResidual_def spec_penaltyJacobian_def
        scale_vec_def)
next
  assume "rt = ''tv''"
  then show ?thesis
    using assms(2)
    by (auto simp add: penalty_terms_def py_is_def spec_penaltyResidual_def
        spec_penaltyJacobian_def scale_vec_def scale_rows_map)
next
  assume "rt = ''huber''"
  then show ?thesis
    using assms(2,3)
    by (auto simp add: penalty_terms_def py_is_def spec_penaltyResidual_def
        spec_penaltyJacobian_def scale_vec_def scale_rows_map)
qed

text \<open>The augmentation in terms of the penalty terms of the specification.\<close>

lemma augment_eq:
  assumes "rt = ''tikhonov'' \<or> rt = ''tv'' \<or> rt = ''huber''"
    and "matvec B x = Inr r"
    and "rt = ''huber'' \<longrightarrow> eta \<noteq> 0"
  shows "augment res J (Lit rt) alpha B x eta W =
    (if np_size J \<noteq> 0 then
       and_then
         (vconcat J
           (map2 (\<lambda>ri Lrow. replicate W 0 @ spec_penaltyJacobian rt alpha eta ri Lrow) r B))
         (\<lambda>J'. Inr (res @ map (spec_penaltyResidual rt alpha eta) r, J'))
     else Inr (res @ map (spec_penaltyResidual rt alpha eta) r, J))"
proof -
  obtain res0 J0 where p: "penalty_terms (Lit rt) B x eta = Inr (Some (res0, J0))"
    and r: "scale_vec alpha res0 = map (spec_penaltyResidual rt alpha eta) r"
    and j: "scale_mat alpha J0 = map2 (spec_penaltyJacobian rt alpha eta) r B"
    using penalty_terms_spec [OF assms] by blast
  have len: "length (map2 (spec_penaltyJacobian rt alpha eta) r B) = length B"
    using matvec_length [OF assms(2)] by simp
  have z: "map2 (@) (replicate (length B) (replicate W 0))
             (map2 (spec_penaltyJacobian rt alpha eta) r B)
           = map2 (\<lambda>ri Lrow. replicate W 0 @ spec_penaltyJacobian rt alpha eta ri Lrow) r B"
    using map2_replicate_append [OF len] by (simp add: comp_def case_prod_unfold)
  show ?thesis
    using matvec_length [OF assms(2)] by (simp add: augment_def p r j hconcat_def z Let_def)
qed

text \<open>Where the augmentation raises although the operands have the right shapes.\<close>

lemma augment_huber_zero:
  "matvec B x = Inr r \<Longrightarrow> augment res J (Lit ''huber'') alpha B x 0 W = Inl ZeroDivisionError"
  by (simp add: augment_def penalty_terms_def py_is_def)

lemma augment_unknown:
  "rt \<noteq> Lit ''tikhonov'' \<Longrightarrow> rt \<noteq> Lit ''tv'' \<Longrightarrow> rt \<noteq> Lit ''huber'' \<Longrightarrow>
   augment res J rt alpha B x eta W = Inl UnboundLocalError_resreg"
  by (simp add: augment_def penalty_terms_def py_is_def)



subsection \<open>Validation of the bounds\<close>

lemma snlls_setup_error:
  "snlls_setup E a0 = Inl e \<Longrightarrow> snlls E a0 = ([], Inl e)"
  by (simp add: snlls_def)

lemma setup_nonlin_bounds:
  "length (default_bounds (lb a0) (length (par0 a0)) MinusInf) \<noteq> length (par0 a0)
   \<or> length (default_bounds (ub a0) (length (par0 a0)) PlusInf) \<noteq> length (par0 a0)
   \<Longrightarrow> snlls_setup E a0 = Inl (TypeError_nonlin_bounds (length (par0 a0)))"
  by (simp add: snlls_setup_def Let_def)

lemma setup_lin_bounds:
  "length (default_bounds (lb a0) (length (par0 a0)) MinusInf) = length (par0 a0) \<Longrightarrow>
   length (default_bounds (ub a0) (length (par0 a0)) PlusInf) = length (par0 a0) \<Longrightarrow>
   length (default_bounds (lbl a0) (ncols (Amodel a0 (par0 a0))) MinusInf) \<noteq> ncols (Amodel a0 (par0 a0))
   \<or> length (default_bounds (ubl a0) (ncols (Amodel a0 (par0 a0))) PlusInf) \<noteq> ncols (Amodel a0 (par0 a0))
   \<Longrightarrow> snlls_setup E a0 = Inl (TypeError_lin_bounds (ncols (Amodel a0 (par0 a0))))"
  by (simp add: snlls_setup_def Let_def)

lemma setup_crossed_bounds:
  "length (default_bounds (lb a0) (length (par0 a0)) MinusInf) = length (par0 a0) \<Longrightarrow>
   length (default_bounds (ub a0) (length (par0 a0)) PlusInf) = length (par0 a0) \<Longrightarrow>
   length (default_bounds (lbl a0) (ncols (Amodel a0 (par0 a0))) MinusInf) = ncols (Amodel a0 (par0 a0)) \<Longrightarrow>
   length (default_bounds (ubl a0) (ncols (Amodel a0 (par0 a0))) PlusInf) = ncols (Amodel a0 (par0 a0)) \<Longrightarrow>
   any2 xless (default_bounds (ub a0) (length (par0 a0)) PlusInf)
              (default_bounds (lb a0) (length (par0 a0)) MinusInf)
   \<or> any2 xless (default_bounds (ubl a0) (ncols (Amodel a0 (par0 a0))) PlusInf)
                (default_bounds (lbl a0) (ncols (Amodel a0 (par0 a0))) MinusInf)
   \<Longrightarrow> snlls_setup E a0 = Inl ValueError_bounds"
  by (simp add: snlls_setup_def Let_def)

lemma setup_start_outside:
  "length (default_bounds (lb a0) (length (par0 a0)) MinusInf) = length (par0 a0) \<Longrightarrow>
   length (default_bounds (ub a0) (length (par0 a0)) PlusInf) = length (par0 a0) \<Longrightarrow>
   length (default_bounds (lbl a0) (ncols (Amodel a0 (par0 a0))) MinusInf) = ncols (Amodel a0 (par0 a0)) \<Longrightarrow>
   length (default_bounds (ubl a0) (ncols (Amodel a0 (par0 a0))) PlusInf) = ncols (Amodel a0 (par0 a0)) \<Longrightarrow>
   \<not> any2 xless (default_bounds (ub a0) (length (par0 a0)) PlusInf)
              (default_bounds (lb a0) (length (par0 a0)) MinusInf) \<Longrightarrow>
   \<not> any2 xless (default_bounds (ubl a0) (ncols (Amodel a0 (par0 a0))) PlusInf)
                (default_bounds (lbl a0) (ncols (Amodel a0 (par0 a0))) MinusInf) \<Longrightarrow>
   any2 (\<lambda>p u. xless u (Val p)) (par0 a0) (default_bounds (ub a0) (length (par0 a0)) PlusInf)
   \<or> any2 (\<lambda>p l. xless (Val p) l) (par0 a0) (default_bounds (lb a0) (length (par0 a0)) MinusInf)
   \<Longrightarrow> snlls_setup E a0 = Inl ValueError_start"
  by (simp add: snlls_setup_def Let_def)

text \<open>
  C7. With \<open>W\<close> the number of non-linear parameters and \<open>M\<close> the number of columns
  of \<open>Amodel(par0)\<close>: an empty bound vector is replaced by \<open>W\<close> (or \<open>M\<close>) infinities
  of the right sign. Then, in this order: a non-linear bound vector of another length
  than \<open>W\<close>, or a linear one of another length than \<open>M\<close>, raises the
  \<^verbatim>\<open>TypeError\<close> on the number of bounds; an upper bound below its lower bound
  raises the \<^verbatim>\<open>ValueError\<close> on the bounds; a start value outside its bounds raises
  the \<^verbatim>\<open>ValueError\<close> on the start values. In each case no solver has been called
  and \<^verbatim>\<open>snlls\<close> returns nothing.
\<close>

theorem bounds_validation:
  fixes E :: "'g env" and a0 :: snlls_args
  defines "W \<equiv> length (par0 a0)"
    and "M \<equiv> ncols (Amodel a0 (par0 a0))"
  defines "lo \<equiv> (if lb a0 = [] then replicate W MinusInf else lb a0)"
    and "hi \<equiv> (if ub a0 = [] then replicate W PlusInf else ub a0)"
    and "lol \<equiv> (if lbl a0 = [] then replicate M MinusInf else lbl a0)"
    and "hil \<equiv> (if ubl a0 = [] then replicate M PlusInf else ubl a0)"
  shows "(\<forall>a loc. snlls_setup E a0 = Inr (a, loc) \<longrightarrow>
            lb a = lo \<and> ub a = hi \<and> lbl a = lol \<and> ubl a = hil)
       \<and> (length lo \<noteq> W \<or> length hi \<noteq> W \<longrightarrow>
            snlls E a0 = ([], Inl (TypeError_nonlin_bounds W)))
       \<and> (length lo = W \<and> length hi = W \<and> (length lol \<noteq> M \<or> length hil \<noteq> M) \<longrightarrow>
            snlls E a0 = ([], Inl (TypeError_lin_bounds M)))
       \<and> (length lo = W \<and> length hi = W \<and> length lol = M \<and> length hil = M
            \<and> ((\<exists>i<W. xless (hi ! i) (lo ! i)) \<or> (\<exists>i<M. xless (hil ! i) (lol ! i))) \<longrightarrow>
            snlls E a0 = ([], Inl ValueError_bounds))
       \<and> (length lo = W \<and> length hi = W \<and> length lol = M \<and> length hil = M
            \<and> \<not> (\<exists>i<W. xless (hi ! i) (lo ! i)) \<and> \<not> (\<exists>i<M. xless (hil ! i) (lol ! i))
            \<and> (\<exists>i<W. xless (hi ! i) (Val (par0 a0 ! i)) \<or> xless (Val (par0 a0 ! i)) (lo ! i)) \<longrightarrow>
            snlls E a0 = ([], Inl ValueError_start))"
proof -
  have d: "default_bounds (lb a0) (length (par0 a0)) MinusInf = lo"
    "default_bounds (ub a0) (length (par0 a0)) PlusInf = hi"
    "default_bounds (lbl a0) (ncols (Amodel a0 (par0 a0))) MinusInf = lol"
    "default_bounds (ubl a0) (ncols (Amodel a0 (par0 a0))) PlusInf = hil"
    by (simp_all add: default_bounds_def lo_def hi_def lol_def hil_def W_def M_def)
  have 1: "\<forall>a loc. snlls_setup E a0 = Inr (a, loc) \<longrightarrow>
            lb a = lo \<and> ub a = hi \<and> lbl a = lol \<and> ubl a = hil"
    using snlls_setup_Inr(4-7) [of E a0] by (simp add: d)
  have 2: "snlls E a0 = ([], Inl (TypeError_nonlin_bounds W))"
    if "length lo \<noteq> W \<or> length hi \<noteq> W"
    using that setup_nonlin_bounds [of a0 E, unfolded d, folded W_def]
    by (simp add: snlls_setup_error)
  have 3: "snlls E a0 = ([], Inl (TypeError_lin_bounds M))"
    if "length lo = W" "length hi = W" "length lol \<noteq> M \<or> length hil \<noteq> M"
    using that setup_lin_bounds [of a0 E, unfolded d, folded W_def M_def]
    by (simp add: snlls_setup_error)
  have 4: "snlls E a0 = ([], Inl ValueError_bounds)"
    if "length lo = W" "length hi = W" "length lol = M" "length hil = M"
      "(\<exists>i<W. xless (hi ! i) (lo ! i)) \<or> (\<exists>i<M. xless (hil ! i) (lol ! i))"
  proof -
    have "any2 xless hi lo \<or> any2 xless hil lol"
      using that by (simp add: any2_nth)
    then show ?thesis
      using that(1-4) setup_crossed_bounds [of a0 E, unfolded d, folded W_def M_def]
      by (simp add: snlls_setup_error)
  qed
  have 5: "snlls E a0 = ([], Inl ValueError_start)"
    if "length lo = W" "length hi = W" "length lol = M" "length hil = M"
      "\<not> (\<exists>i<W. xless (hi ! i) (lo ! i))" "\<not> (\<exists>i<M. xless (hil ! i) (lol ! i))"
      "\<exists>i<W. xless (hi ! i) (Val (par0 a0 ! i)) \<or> xless (Val (par0 a0 ! i)) (lo ! i)"
  proof -
    have a: "\<not> any2 xless hi lo" "\<not> any2 xless hil lol"
      using that(1-6) by (simp_all add: any2_nth)
    have "any2 (\<lambda>p u. xless u (Val p)) (par0 a0) hi \<or> any2 (\<lambda>p l. xless (Val p) l) (par0 a0) lo"
      using that(1,2,7) by (auto simp add: any2_nth W_def)
    then show ?thesis
      using that(1-4) a setup_start_outside [of a0 E, unfolded d, folded W_def M_def]
      by (simp add: snlls_setup_error)
  qed
  show ?thesis
    using 1 2 3 4 5 by blast
qed


theorem bounds_validation_witness:
  "snlls demo_env (demo_args\<lparr>lb := [Val 0, Val 1]\<rparr>) = ([], Inl (TypeError_nonlin_bounds 1))
   \<and> snlls demo_env (demo_args\<lparr>ubl := [PlusInf, PlusInf]\<rparr>) = ([], Inl (TypeError_lin_bounds 1))
   \<and> snlls demo_env (demo_args\<lparr>ub := [Val (- 1)]\<rparr>) = ([], Inl ValueError_bounds)
   \<and> snlls demo_env (demo_args\<lparr>par0 := [- 1]\<rparr>) = ([], Inl ValueError_start)
   \<and> (case snlls_setup demo_env demo_args of
         Inr (a, loc) \<Rightarrow> lb a = [Val 0] \<and> lbl a = [MinusInf] \<and> ubl a = [PlusInf]
       | Inl e \<Rightarrow> False)"
proof -
  have "snlls demo_env (demo_args\<lparr>lb := [Val 0, Val 1]\<rparr>) = ([], Inl (TypeError_nonlin_bounds 1))"
    using bounds_validation [of demo_env "demo_args\<lparr>lb := [Val 0, Val 1]\<rparr>"]
    by (simp add: demo_args_def)
  moreover have "snlls demo_env (demo_args\<lparr>ubl := [PlusInf, PlusInf]\<rparr>)
      = ([], Inl (TypeError_lin_bounds 1))"
    using bounds_validation [of demo_env "demo_args\<lparr>ubl := [PlusInf, PlusInf]\<rparr>"]
    by (simp add: demo_args_def demo_Amodel_def ncols_def)
  moreover have "snlls demo_env (demo_args\<lparr>ub := [Val (- 1)]\<rparr>) = ([], Inl ValueError_bounds)"
    using bounds_validation [of demo_env "demo_args\<lparr>ub := [Val (- 1)]\<rparr>"]
    by (simp add: demo_args_def demo_Amodel_def ncols_def)
  moreover have "snlls demo_env (demo_args\<lparr>par0 := [- 1]\<rparr>) = ([], Inl ValueError_start)"
    using bounds_validation [of demo_env "demo_args\<lparr>par0 := [- 1]\<rparr>"]
    by (simp add: demo_args_def demo_Amodel_def ncols_def)
  moreover have "case snlls_setup demo_env demo_args of
         Inr (a, loc) \<Rightarrow> lb a = [Val 0] \<and> lbl a = [MinusInf] \<and> ubl a = [PlusInf]
       | Inl e \<Rightarrow> False"
    using bounds_validation [of demo_env demo_args]
    by (simp add: demo_setup) (simp add: demo_args_def demo_Amodel_def ncols_def)
  ultimately show ?thesis
    by blast
qed

subsection \<open>The confidence intervals\<close>

lemma snlls_finish_paramuq:
  assumes "snlls_finish E a loc s fvals nonlinfits linfits = Inr (nonlinfit, linfit', Some q, st)"
  shows "\<exists>covmatrix. q = ci (uqst_ci E (nonlinfit @ linfit') covmatrix (lb a @ lbl a) (ub a @ ubl a))
           (Nnonlin loc)"
  using assms
  by (auto simp: snlls_finish_def and_then_Inr_iff Let_def split: if_splits)

lemma snlls_paramuq:
  assumes "snlls E a0 = (tr, Inr (nonlinfit, linfit', Some q, st))"
  shows "\<exists>a loc covmatrix. snlls_setup E a0 = Inr (a, loc)
           \<and> q = ci (uqst_ci E (nonlinfit @ linfit') covmatrix (lb a @ lbl a) (ub a @ ubl a))
                 (length (par0 a0))"
proof -
  obtain a loc where s: "snlls_setup E a0 = Inr (a, loc)"
    using assms by (cases "snlls_setup E a0") (auto simp: snlls_def)
  obtain s1 fvals nonlinfits linfits where
    "snlls_finish E a loc s1 fvals nonlinfits linfits = Inr (nonlinfit, linfit', Some q, st)"
    using assms s by (auto simp: snlls_def split: if_splits prod.splits sum.splits)
  from snlls_finish_paramuq [OF this] show ?thesis
    using s snlls_setup_Inr(1) [OF s] by auto
qed

text \<open>
  C6. For the uncertainty object \<open>q\<close> that \<^verbatim>\<open>snlls\<close> returns, with \<open>W\<close> non-linear
  parameters, and for every coverage: when the interval matrix of the full parameter
  set has \<open>W + M\<close> rows, \<^verbatim>\<open>ci(coverage,'nonlin')\<close> is its first \<open>W\<close> rows (rows
  \<open>0\<close> to \<open>W - 1\<close>) and \<^verbatim>\<open>ci(coverage,'lin')\<close> is its other \<open>M\<close> rows (rows \<open>W\<close> to
  \<open>W + M - 1\<close>).
\<close>

theorem ci_slicing:
  assumes "snlls E a0 = (tr, Inr (nonlinfit, linfit', Some q, st))"
    and "q coverage ''full'' = Inr full"
    and "length full = length (par0 a0) + M"
  shows "q coverage ''nonlin'' = Inr (take (length (par0 a0)) full)
       \<and> q coverage ''lin'' = Inr (drop (length (par0 a0)) full)
       \<and> length (take (length (par0 a0)) full) = length (par0 a0)
       \<and> length (drop (length (par0 a0)) full) = M
       \<and> (\<forall>i<length (par0 a0). take (length (par0 a0)) full ! i = full ! i)
       \<and> (\<forall>i<M. drop (length (par0 a0)) full ! i = full ! (length (par0 a0) + i))"
proof -
  obtain f where q: "q = ci f (length (par0 a0))"
    using snlls_paramuq [OF assms(1)] by blast
  have "f coverage = full"
    using assms(2) by (simp add: q ci_def)
  then show ?thesis
    using assms(3) by (simp add: q ci_def)
qed

text \<open>
  C10. For the uncertainty object \<open>q\<close> that \<^verbatim>\<open>snlls\<close> returns, every coverage and
  every selector string other than \<^verbatim>\<open>'nonlin'\<close> and \<^verbatim>\<open>'lin'\<close>: the query raises no
  error and returns the interval matrix of the joint parameter set, the one that
  \<^verbatim>\<open>'full'\<close> returns.
\<close>

theorem ci_unknown_selector:
  assumes "snlls E a0 = (tr, Inr (nonlinfit, linfit', Some q, st))"
    and "sel \<noteq> ''nonlin''" and "sel \<noteq> ''lin''"
  shows "q coverage sel = q coverage ''full''
       \<and> (\<exists>a loc covmatrix. snlls_setup E a0 = Inr (a, loc)
            \<and> q coverage sel =
                Inr (uqst_ci E (nonlinfit @ linfit') covmatrix (lb a @ lbl a) (ub a @ ubl a) coverage))"
proof -
  obtain a loc covmatrix where s: "snlls_setup E a0 = Inr (a, loc)"
    and q: "q = ci (uqst_ci E (nonlinfit @ linfit') covmatrix (lb a @ lbl a) (ub a @ ubl a))
                 (length (par0 a0))"
    using snlls_paramuq [OF assms(1)] by blast
  have "q coverage sel =
          Inr (uqst_ci E (nonlinfit @ linfit') covmatrix (lb a @ lbl a) (ub a @ ubl a) coverage)"
    using assms(2,3) by (simp add: q ci_def)
  moreover have "q coverage ''full'' =
          Inr (uqst_ci E (nonlinfit @ linfit') covmatrix (lb a @ lbl a) (ub a @ ubl a) coverage)"
    by (simp add: q ci_def)
  ultimately show ?thesis
    using s by auto
qed


text \<open>The run of the small problem.\<close>

lemmas run_defs = least_squares_def ResidualsFcn_def alpha_step_def rel_change_small_def
  augment_def penalty_terms_def matvec_def broadcast_def hconcat_def vconcat_def ncols_def
  np_size_def dot_def scale_vec_def scale_mat_def scale_rows_def truthy_def
  nonLinearConstrained_def run_linSolver_def init_state_def demo_env_def demo_args_def
  demo_Amodel_def demo_frame_def py_is_def Let_def

lemma demo_setup_solver:
  "snlls_setup demo_env (demo_args\<lparr>nnlsSolver := n\<rparr>) =
     Inr (demo_args\<lparr>nnlsSolver := n, lbl := [MinusInf], ubl := [PlusInf], regOrder := 0\<rparr>,
          demo_frame)"
  by (simp add: setup_defs demo_frame_def)

lemma demo_loop:
  "multistart_loop demo_env
     (demo_args\<lparr>nnlsSolver := n, lbl := [MinusInf], ubl := [PlusInf], regOrder := 0\<rparr>)
     demo_frame [[2000], [2001]] (init_state demo_frame) ([], [], []) =
   (\<lparr>par_prev = [2001], check = True, regparam_prev = 2000, linfit = [2003 / 8004002],
     trace = [Call_least_squares, Call_selregparam, Call_linSolver,
              Call_least_squares, Call_linSolver]\<rparr>,
    Inr ([303968059992001 / 128000032000002, 152128074010001 / 64064048016004],
         [[2000], [2001]], [[2002 / 8000001], [2003 / 8004002]]))"
  by (simp add: run_defs eval_nat_numeral)

lemmas finish_defs = snlls_finish_def argmin_def index_def matvec_def broadcast_def hconcat_def
  vconcat_def ncols_def np_size_def dot_def scale_vec_def scale_mat_def scale_rows_def
  augment_def penalty_terms_def take_indices_def eye_def demo_env_def demo_args_def
  demo_Amodel_def demo_frame_def py_is_def Let_def

lemma demo_finish:
  "snlls_finish demo_env
     (demo_args\<lparr>nnlsSolver := n, lbl := [MinusInf], ubl := [PlusInf], regOrder := 0\<rparr>)
     demo_frame
     \<lparr>par_prev = [2001], check = True, regparam_prev = 2000, linfit = [2003 / 8004002],
      trace = [Call_least_squares, Call_selregparam, Call_linSolver,
               Call_least_squares, Call_linSolver]\<rparr>
     [303968059992001 / 128000032000002, 152128074010001 / 64064048016004]
     [[2000], [2001]] [[2002 / 8000001], [2003 / 8004002]] =
   Inr ([2001], [2003 / 8004002],
        Some (ci (\<lambda>coverage. [[2001 - coverage, 2001 + coverage],
                               [2003 / 8004002 - coverage, 2003 / 8004002 + coverage]]) 1),
        One_stat 1)"
  by (simp add: finish_defs)

lemma demo_snlls_solver:
  "snlls demo_env (demo_args\<lparr>nnlsSolver := n\<rparr>) =
     ([Call_least_squares, Call_selregparam, Call_linSolver, Call_least_squares, Call_linSolver],
      Inr ([2001], [2003 / 8004002],
           Some (ci (\<lambda>coverage. [[2001 - coverage, 2001 + coverage],
                                  [2003 / 8004002 - coverage, 2003 / 8004002 + coverage]]) 1),
           One_stat 1))"
proof -
  let ?a = "demo_args\<lparr>nnlsSolver := n, lbl := [MinusInf], ubl := [PlusInf], regOrder := 0\<rparr>"
  have seeds: "multistarts demo_env (multiStarts ?a) (par0 ?a) (lb ?a) (ub ?a) = [[2000], [2001]]"
    by (simp add: demo_env_def demo_args_def)
  have gate: "(1 < multiStarts ?a \<and> \<not> nonLinearConstrained (lb ?a) (ub ?a)) = False"
    by (simp add: demo_args_def nonLinearConstrained_def)
  show ?thesis
    unfolding snlls_def demo_setup_solver
    by (simp only: seeds gate demo_loop demo_finish sum.case prod.case if_False istate.simps)
qed

lemma demo_snlls:
  "snlls demo_env demo_args =
     ([Call_least_squares, Call_selregparam, Call_linSolver, Call_least_squares, Call_linSolver],
      Inr ([2001], [2003 / 8004002],
           Some (ci (\<lambda>coverage. [[2001 - coverage, 2001 + coverage],
                                  [2003 / 8004002 - coverage, 2003 / 8004002 + coverage]]) 1),
           One_stat 1))"
proof -
  have "demo_args\<lparr>nnlsSolver := Lit ''cvx''\<rparr> = demo_args"
    by (simp add: demo_args_def)
  then show ?thesis
    using demo_snlls_solver [of "Lit ''cvx''"] by simp
qed

theorem ci_slicing_witness:
  "case snd (snlls demo_env demo_args) of
     Inr (nonlinfit, linfit', Some q, st) \<Rightarrow>
       q 5 ''full'' = Inr [[1996, 2006], [2003 / 8004002 - 5, 2003 / 8004002 + 5]]
       \<and> q 5 ''nonlin'' = Inr [[1996, 2006]]
       \<and> q 5 ''lin'' = Inr [[2003 / 8004002 - 5, 2003 / 8004002 + 5]]
   | _ \<Rightarrow> False"
proof -
  let ?q = "ci (\<lambda>coverage. [[2001 - coverage, 2001 + coverage],
                            [2003 / 8004002 - coverage, 2003 / 8004002 + coverage]]) 1"
  have f: "?q 5 ''full'' = Inr [[1996, 2006], [2003 / 8004002 - 5, 2003 / 8004002 + 5]]"
    by (simp add: ci_def)
  have l: "length [[1996, 2006], [2003 / 8004002 - 5, 2003 / 8004002 + (5::real)]]
             = length (par0 demo_args) + 1"
    by (simp add: demo_args_def)
  have "?q 5 ''nonlin'' = Inr [[1996, 2006]]
      \<and> ?q 5 ''lin'' = Inr [[2003 / 8004002 - 5, 2003 / 8004002 + 5]]"
    using ci_slicing [OF demo_snlls f l] by (simp add: demo_args_def)
  then show ?thesis
    using f by (simp add: demo_snlls)
qed

theorem ci_unknown_selector_witness:
  "case snd (snlls demo_env demo_args) of
     Inr (nonlinfit, linfit', Some q, st) \<Rightarrow>
       q 5 ''linear'' = Inr [[1996, 2006], [2003 / 8004002 - 5, 2003 / 8004002 + 5]]
       \<and> q 5 [] = q 5 ''full''
   | _ \<Rightarrow> False"
proof -
  let ?q = "ci (\<lambda>coverage. [[2001 - coverage, 2001 + coverage],
                            [2003 / 8004002 - coverage, 2003 / 8004002 + coverage]]) 1"
  have f: "?q 5 ''full'' = Inr [[1996, 2006], [2003 / 8004002 - 5, 2003 / 8004002 + 5]]"
    by (simp add: ci_def)
  have "?q 5 ''linear'' = ?q 5 ''full''" "?q 5 [] = ?q 5 ''full''"
    using ci_unknown_selector [OF demo_snlls, of "''linear''" 5]
      ci_unknown_selector [OF demo_snlls, of "[]" 5]
    by simp_all
  then show ?thesis
    using f by (simp add: demo_snlls)
qed

subsection \<open>The objective: regularization parameter and residual\<close>

lemma rel_change_small_eq:
  assumes "length pprev = length p"
  shows "rel_change_small thr pprev p =
           Inr (\<forall>i<length p. p ! i \<noteq> 0 \<and> \<bar>pprev ! i - p ! i\<bar> / p ! i < thr)"
  using assms
  by (auto simp: rel_change_small_def broadcast_def list_all_iff set_zip in_set_conv_nth)

lemma ResidualsFcn_state:
  assumes "alpha_step E a loc s p (Amodel a p) = (s1, r)"
  shows "par_prev (fst (ResidualsFcn E a loc s p)) = par_prev s1"
    and "regparam_prev (fst (ResidualsFcn E a loc s p)) = regparam_prev s1"
    and "check (fst (ResidualsFcn E a loc s p)) = check s1"
    and "count_list (trace (fst (ResidualsFcn E a loc s p))) Call_selregparam
           = count_list (trace s1) Call_selregparam"
  using assms
  by (auto simp: ResidualsFcn_def Let_def split: sum.splits prod.splits option.splits)

text \<open>
  C2. On a call of the objective with the candidate \<open>p\<close>, with the penalty included
  and \<^verbatim>\<open>regparam\<close> the name of a selection method: the cached regularization
  parameter is reused exactly when \<^verbatim>\<open>check\<close> is set (a selection has been made
  before) and every component satisfies \<^verbatim>\<open>abs(par_prev-p)/p < alphaOptThreshold\<close>,
  the division being by the new \<open>p\<close> (a component of \<open>p\<close> that is zero does not
  satisfy it); otherwise \<^verbatim>\<open>selregparam\<close> is called once and \<^verbatim>\<open>check\<close> is set. In
  both cases the parameter used is cached together with \<open>p\<close>. The default threshold
  is \<open>1e-3\<close>.
\<close>

theorem alpha_reuse:
  fixes E :: "'g env"
  assumes "truthy (includePenalty loc)" and "regparam a = Method meth"
    and "length (par_prev s) = length p"
  defines "reuse \<equiv> check s \<and>
             (\<forall>i<length p. p ! i \<noteq> 0
                \<and> \<bar>par_prev s ! i - p ! i\<bar> / p ! i < alphaOptThreshold a)"
    and "sel \<equiv> selregparam E (y a) (Amodel a p) (ax loc) (regtype a) meth (regOrder a)"
    and "s' \<equiv> fst (ResidualsFcn E a loc s p)"
  shows "alpha_step E a loc s p (Amodel a p) =
           (if reuse then (s\<lparr>par_prev := p, regparam_prev := regparam_prev s\<rparr>,
                           Inr (regparam_prev s))
            else (s\<lparr>check := True, trace := trace s @ [Call_selregparam],
                    par_prev := p, regparam_prev := sel\<rparr>, Inr sel))
       \<and> par_prev s' = p
       \<and> regparam_prev s' = (if reuse then regparam_prev s else sel)
       \<and> check s'
       \<and> count_list (trace s') Call_selregparam
           = count_list (trace s) Call_selregparam + (if reuse then 0 else 1)
       \<and> alphaOptThreshold (default_args yv Am p0 subs) = 1 / 1000"
proof -
  have a: "alpha_step E a loc s p (Amodel a p) =
           (if reuse then (s\<lparr>par_prev := p, regparam_prev := regparam_prev s\<rparr>,
                           Inr (regparam_prev s))
            else (s\<lparr>check := True, trace := trace s @ [Call_selregparam],
                    par_prev := p, regparam_prev := sel\<rparr>, Inr sel))"
  proof -
    define Q where "Q \<longleftrightarrow> (\<forall>i<length p. p ! i \<noteq> 0
                \<and> \<bar>par_prev s ! i - p ! i\<bar> / p ! i < alphaOptThreshold a)"
    have rc: "rel_change_small (alphaOptThreshold a) (par_prev s) p = Inr Q"
      using rel_change_small_eq [OF assms(3), of "alphaOptThreshold a"] by (simp add: Q_def)
    have r: "reuse \<longleftrightarrow> check s \<and> Q"
      by (simp add: reuse_def Q_def)
    show ?thesis
      using assms(1,2)
      by (cases "check s"; cases Q) (simp_all add: alpha_step_def r sel_def rc)
  qed
  show ?thesis
  proof (cases reuse)
    case True
    then have "check s" by (simp add: reuse_def)
    then show ?thesis
      using True a ResidualsFcn_state [of E a loc s p] 
      by (simp add: s'_def default_args_def)
  next
    case False
    then show ?thesis
      using a ResidualsFcn_state [of E a loc s p] 
      by (simp add: s'_def default_args_def)
  qed
qed


theorem alpha_reuse_witness:
  "alpha_step demo_env (demo_args\<lparr>lbl := [MinusInf], ubl := [PlusInf], regOrder := 0\<rparr>) demo_frame
     \<lparr>par_prev = [2000], check = True, regparam_prev = 2000, linfit = [2002 / 8000001],
      trace = [Call_least_squares, Call_selregparam, Call_linSolver]\<rparr>
     [2001] (demo_Amodel [2001]) =
   (\<lparr>par_prev = [2001], check = True, regparam_prev = 2000, linfit = [2002 / 8000001],
     trace = [Call_least_squares, Call_selregparam, Call_linSolver]\<rparr>, Inr 2000)
   \<and> alpha_step demo_env (demo_args\<lparr>lbl := [MinusInf], ubl := [PlusInf], regOrder := 0\<rparr>)
       demo_frame
       \<lparr>par_prev = [2000], check = True, regparam_prev = 2000, linfit = [2002 / 8000001],
        trace = [Call_least_squares, Call_selregparam, Call_linSolver]\<rparr>
       [2500] (demo_Amodel [2500]) =
     (\<lparr>par_prev = [2500], check = True, regparam_prev = 2500, linfit = [2002 / 8000001],
       trace = [Call_least_squares, Call_selregparam, Call_linSolver, Call_selregparam]\<rparr>,
      Inr 2500)
   \<and> alpha_step demo_env (demo_args\<lparr>lbl := [MinusInf], ubl := [PlusInf], regOrder := 0\<rparr>)
       demo_frame (init_state demo_frame) [2000] (demo_Amodel [2000]) =
     (\<lparr>par_prev = [2000], check = True, regparam_prev = 2000, linfit = [0],
       trace = [Call_selregparam]\<rparr>, Inr 2000)"
proof -
  let ?a = "demo_args\<lparr>lbl := [MinusInf], ubl := [PlusInf], regOrder := 0\<rparr>"
  let ?s = "\<lparr>par_prev = [2000], check = True, regparam_prev = 2000, linfit = [2002 / 8000001],
      trace = [Call_least_squares, Call_selregparam, Call_linSolver]\<rparr>"
  have h: "truthy (includePenalty demo_frame)" "regparam ?a = Method ''aic''"
    by (simp_all add: demo_frame_def truthy_def demo_args_def)
  have l: "length (par_prev ?s) = length [2001::real]" "length (par_prev ?s) = length [2500::real]"
    "length (par_prev (init_state demo_frame)) = length [2000::real]"
    by (simp_all add: init_state_def demo_frame_def)
  show ?thesis
    using alpha_reuse [where E = demo_env, OF h l(1)] alpha_reuse [where E = demo_env, OF h l(2)]
      alpha_reuse [where E = demo_env, OF h l(3)]
    by (simp add: demo_args_def demo_env_def demo_Amodel_def demo_frame_def init_state_def)
qed


lemma dot_scale_vec: "dot (scale_vec c u) v = c * dot u v"
  by (induction u v rule: list_induct2') (simp_all add: dot_def scale_vec_def algebra_simps)

lemma matvec_scale_mat:
  "matvec B x = Inr r \<Longrightarrow> matvec (scale_mat c B) x = Inr (map (\<lambda>ri. c * ri) r)"
proof -
  assume m: "matvec B x = Inr r"
  then have a: "list_all (\<lambda>row. length row = length x) B" and r: "r = map (\<lambda>row. dot row x) B"
    by (auto simp: matvec_def split: if_splits)
  have "list_all (\<lambda>row. length row = length x) (scale_mat c B)"
    using a by (simp add: scale_mat_def scale_vec_def list_all_iff)
  then show ?thesis
    by (simp add: matvec_def r scale_mat_def dot_scale_vec comp_def)
qed

text \<open>
  C1. When the objective returns, its residual vector is the data residual
  \<open>A(p) x - y\<close> alone if no penalty is included. If a penalty is included, it is the
  data residual, followed by \<open>alpha L x\<close> (lines 244 to 246), followed by the penalty
  residual of the augmentation rule (line 247): the penalty stands in the returned
  vector twice, not once.
\<close>

theorem ResidualsFcn_residual:
  assumes "alpha_step E a loc s p (Amodel a p) = (s1, Inr alpha)"
    and "linSolver loc = Some k"
    and "lsqcomponents E (y a) (Amodel a p) (L loc) alpha (weights a) (regtype a) = (AtA, Aty)"
    and "x = run_linSolver E a k AtA Aty"
    and "matvec (Amodel a p) x = Inr yfit"
    and "broadcast (-) yfit (y a) = Inr res"
    and "matvec (L loc) x = Inr r"
    and "regtype a = Lit ''tikhonov'' \<or> regtype a = Lit ''tv'' \<or> regtype a = Lit ''huber''"
  shows "snd (ResidualsFcn E a loc s p) =
           (if truthy (includePenalty loc) then
              if regtype a = Lit ''huber'' \<and> huberparam a = 0 then Inl ZeroDivisionError
              else Inr (res @ map (\<lambda>ri. alpha * ri) r
                            @ map (spec_penaltyResidual (text_of (regtype a)) alpha (huberparam a)) r)
            else Inr res)"
proof (cases "regtype a = Lit ''huber'' \<and> huberparam a = 0")
  case True
  then have "augment (res @ map (\<lambda>ri. alpha * ri) r) [] (regtype a) alpha (L loc) x (huberparam a)
          (Nnonlin loc) = Inl ZeroDivisionError"
    using augment_huber_zero [OF assms(7)] by simp
  then show ?thesis
    using True assms(1-6) matvec_scale_mat [OF assms(7), of alpha]
    by (simp add: ResidualsFcn_def Let_def)
next
  case False
  obtain rt where rt: "regtype a = Lit rt" "rt = ''tikhonov'' \<or> rt = ''tv'' \<or> rt = ''huber''"
    using assms(8) by auto
  have h: "rt = ''huber'' \<longrightarrow> huberparam a \<noteq> 0"
    using False rt(1) by simp
  have "augment (res @ map (\<lambda>ri. alpha * ri) r) [] (regtype a) alpha (L loc) x (huberparam a)
          (Nnonlin loc)
        = Inr ((res @ map (\<lambda>ri. alpha * ri) r)
                 @ map (spec_penaltyResidual (text_of (regtype a)) alpha (huberparam a)) r, [])"
    using augment_eq [OF rt(2) assms(7) h] by (simp add: np_size_def rt(1))
  then show ?thesis
    using False assms(1-6) matvec_scale_mat [OF assms(7), of alpha]
    by (auto simp add: ResidualsFcn_def Let_def)
qed

theorem ResidualsFcn_residual_witness:
  "ResidualsFcn demo_env
     (demo_args\<lparr>regparam := Fixed 2, lbl := [MinusInf], ubl := [PlusInf], regOrder := 0\<rparr>)
     demo_frame (init_state demo_frame) [3] =
   (\<lparr>par_prev = [3], check = False, regparam_prev = 2, linfit = [5 / 14],
     trace = [Call_linSolver]\<rparr>,
    Inr [1 / 14, - (23 / 14), 5 / 7, 5 / 7])
   \<and> matvec (demo_Amodel [3]) [5 / 14] = Inr [15 / 14, 5 / 14]
   \<and> broadcast (-) [15 / 14, 5 / 14] [1, 2 :: real] = Inr [1 / 14, - (23 / 14)]
   \<and> matvec [[1]] [5 / 14] = Inr [5 / 14]"
proof -
  let ?a = "demo_args\<lparr>regparam := Fixed 2, lbl := [MinusInf], ubl := [PlusInf], regOrder := 0\<rparr>"
  let ?s1 = "\<lparr>par_prev = [3], check = False, regparam_prev = 2, linfit = [0], trace = []\<rparr>"
  have 1: "alpha_step demo_env ?a demo_frame (init_state demo_frame) [3] (Amodel ?a [3])
             = (?s1, Inr 2)"
    by (simp add: alpha_step_def demo_args_def demo_frame_def truthy_def init_state_def)
  have 2: "linSolver demo_frame = Some Solve"
    by (simp add: demo_frame_def)
  have 3: "lsqcomponents demo_env (y ?a) (Amodel ?a [3]) (L demo_frame) 2 (weights ?a) (regtype ?a)
             = ([[14]], [5])"
    by (simp add: demo_env_def demo_args_def demo_frame_def demo_Amodel_def dot_def)
  have 4: "[5 / 14] = run_linSolver demo_env ?a Solve [[14]] [5]"
    by (simp add: run_linSolver_def demo_env_def)
  have 5: "matvec (Amodel ?a [3]) [5 / 14] = Inr [15 / 14, 5 / 14]"
    by (simp add: demo_args_def demo_Amodel_def matvec_def dot_def)
  have 6: "broadcast (-) [15 / 14, 5 / 14] (y ?a) = Inr [1 / 14, - (23 / 14)]"
    by (simp add: demo_args_def broadcast_def)
  have 7: "matvec (L demo_frame) [5 / 14] = Inr [5 / 14]"
    by (simp add: demo_frame_def matvec_def dot_def)
  have 8: "regtype ?a = Lit ''tikhonov'' \<or> regtype ?a = Lit ''tv'' \<or> regtype ?a = Lit ''huber''"
    by (simp add: demo_args_def)
  have s: "fst (ResidualsFcn demo_env ?a demo_frame (init_state demo_frame) [3])
             = \<lparr>par_prev = [3], check = False, regparam_prev = 2, linfit = [5 / 14],
                trace = [Call_linSolver]\<rparr>"
    using 1 2 3 4 by (simp add: ResidualsFcn_def Let_def)
  have "snd (ResidualsFcn demo_env ?a demo_frame (init_state demo_frame) [3])
          = Inr [1 / 14, - (23 / 14), 5 / 7, 5 / 7]"
    using ResidualsFcn_residual [OF 1 2 3 4 5 6 7 8]
    by (simp add: demo_frame_def truthy_def spec_penaltyResidual_def demo_args_def)
  then show ?thesis
    using s 5 6 7 by (simp add: prod_eq_iff demo_args_def demo_frame_def)
qed

subsection \<open>The multi-start search\<close>

lemma argmin_from_first_min:
  assumes "bi < length pre" and "best = pre ! bi" and "i = length pre"
    and "\<forall>j<length pre. pre ! bi \<le> pre ! j" and "\<forall>j<bi. pre ! bi < pre ! j"
  shows "argmin_from best bi i vs < length (pre @ vs)
       \<and> (\<forall>j<length (pre @ vs). (pre @ vs) ! argmin_from best bi i vs \<le> (pre @ vs) ! j)
       \<and> (\<forall>j<argmin_from best bi i vs. (pre @ vs) ! argmin_from best bi i vs < (pre @ vs) ! j)"
  using assms
proof (induction vs arbitrary: best bi i pre)
  case Nil
  then show ?case by simp
next
  case (Cons v vs)
  show ?case
  proof (cases "v < best")
    case True
    have "argmin_from v (length pre) (Suc (length pre)) vs < length ((pre @ [v]) @ vs)
       \<and> (\<forall>j<length ((pre @ [v]) @ vs).
             ((pre @ [v]) @ vs) ! argmin_from v (length pre) (Suc (length pre)) vs
               \<le> ((pre @ [v]) @ vs) ! j)
       \<and> (\<forall>j<argmin_from v (length pre) (Suc (length pre)) vs.
             ((pre @ [v]) @ vs) ! argmin_from v (length pre) (Suc (length pre)) vs
               < ((pre @ [v]) @ vs) ! j)"
    proof (rule Cons.IH)
      show "\<forall>j<length (pre @ [v]). (pre @ [v]) ! length pre \<le> (pre @ [v]) ! j"
      proof (intro allI impI)
        fix j assume j: "j < length (pre @ [v])"
        show "(pre @ [v]) ! length pre \<le> (pre @ [v]) ! j"
        proof (cases "j < length pre")
          case True
          then have "pre ! bi \<le> pre ! j" using Cons.prems(4) by blast
          then show ?thesis
            using \<open>v < best\<close> Cons.prems(2) True by (simp add: nth_append)
        next
          case False
          then show ?thesis using j by (simp add: nth_append)
        qed
      qed
      show "\<forall>j<length pre. (pre @ [v]) ! length pre < (pre @ [v]) ! j"
      proof (intro allI impI)
        fix j assume j: "j < length pre"
        then have "pre ! bi \<le> pre ! j" using Cons.prems(4) by blast
        then show "(pre @ [v]) ! length pre < (pre @ [v]) ! j"
          using \<open>v < best\<close> Cons.prems(2) j by (simp add: nth_append)
      qed
    qed simp_all
    then show ?thesis
      using True Cons.prems(3) by simp
  next
    case False
    have "argmin_from best bi (Suc (length pre)) vs < length ((pre @ [v]) @ vs)
       \<and> (\<forall>j<length ((pre @ [v]) @ vs).
             ((pre @ [v]) @ vs) ! argmin_from best bi (Suc (length pre)) vs
               \<le> ((pre @ [v]) @ vs) ! j)
       \<and> (\<forall>j<argmin_from best bi (Suc (length pre)) vs.
             ((pre @ [v]) @ vs) ! argmin_from best bi (Suc (length pre)) vs
               < ((pre @ [v]) @ vs) ! j)"
    proof (rule Cons.IH)
      show "bi < length (pre @ [v])" using Cons.prems(1) by simp
      show "best = (pre @ [v]) ! bi" using Cons.prems(1,2) by (simp add: nth_append)
      show "\<forall>j<length (pre @ [v]). (pre @ [v]) ! bi \<le> (pre @ [v]) ! j"
        using False Cons.prems by (auto simp: nth_append less_Suc_eq)
      show "\<forall>j<bi. (pre @ [v]) ! bi < (pre @ [v]) ! j"
        using Cons.prems by (auto simp: nth_append)
    qed simp
    then show ?thesis
      using False Cons.prems(3) by simp
  qed
qed

lemma argmin_first_min:
  assumes "argmin vs = Inr i"
  shows "i < length vs \<and> (\<forall>j<length vs. vs ! i \<le> vs ! j) \<and> (\<forall>j<i. vs ! i < vs ! j)"
proof (cases vs)
  case Nil
  then show ?thesis using assms by (simp add: argmin_def)
next
  case (Cons v rest)
  then have i: "i = argmin_from v 0 1 rest"
    using assms by (simp add: argmin_def)
  show ?thesis
    using argmin_from_first_min [of 0 "[v]" v 1 rest] by (simp add: i Cons)
qed

lemma multistart_loop_lengths:
  assumes "multistart_loop E a loc seeds s (fv, nl, ll) = (s', Inr (fv', nl', ll'))"
  shows "length fv' = length fv + length seeds \<and> length nl' = length nl + length seeds
       \<and> length ll' = length ll + length seeds"
  using assms
  by (induction seeds arbitrary: s fv nl ll) (auto split: prod.splits sum.splits)

lemma snlls_finish_choice:
  assumes "snlls_finish E a loc s fvals nonlinfits linfits = Inr (nonlinfit, linfit', q, st)"
  shows "\<exists>i. argmin fvals = Inr i \<and> index nonlinfits i = Inr nonlinfit
           \<and> index linfits i = Inr linfit'"
  using assms
  by (auto simp: snlls_finish_def and_then_Inr_iff Let_def)


text \<open>The errors raised past the set-up and the test on the multi-start search are
  those of the interpreter and of numpy.\<close>

lemma matvec_error: "matvec A x = Inl e \<Longrightarrow> e = ValueError_shape"
  by (simp add: matvec_def split: if_splits)

lemma broadcast_error: "broadcast f xs ys = Inl e \<Longrightarrow> e = ValueError_shape"
  by (simp add: broadcast_def split: if_splits)

lemma hconcat_error: "hconcat A B = Inl e \<Longrightarrow> e = ValueError_shape"
  by (simp add: hconcat_def split: if_splits)

lemma vconcat_error: "vconcat A B = Inl e \<Longrightarrow> e = ValueError_shape"
  by (simp add: vconcat_def split: if_splits)

lemma and_then_Inl_iff:
  "and_then m f = Inl e \<longleftrightarrow> m = Inl e \<or> (\<exists>u. m = Inr u \<and> f u = Inl e)"
  by (cases m) simp_all

lemma penalty_terms_error:
  "penalty_terms rt B x eta = Inl e \<Longrightarrow> e = ValueError_shape \<or> e = ZeroDivisionError"
  by (auto simp: penalty_terms_def and_then_Inl_iff split: if_splits dest: matvec_error)

lemma augment_error:
  "augment res J rt alpha B x eta W = Inl e \<Longrightarrow> e \<noteq> TypeError_multistart"
  by (auto simp: augment_def and_then_Inl_iff Let_def
      split: sum.splits option.splits prod.splits if_splits
      dest: penalty_terms_error hconcat_error vconcat_error)

lemma alpha_step_error:
  "alpha_step E a loc s p A = (s1, Inl e) \<Longrightarrow> e \<noteq> TypeError_multistart"
  by (auto simp: alpha_step_def rel_change_small_def and_then_Inl_iff
      split: if_splits regparam_val.splits sum.splits bool.splits dest: broadcast_error)

lemma ResidualsFcn_error:
  "ResidualsFcn E a loc s p = (s1, Inl e) \<Longrightarrow> e \<noteq> TypeError_multistart"
  by (auto simp: ResidualsFcn_def Let_def and_then_Inl_iff
      split: prod.splits sum.splits option.splits if_splits
      dest: alpha_step_error matvec_error broadcast_error augment_error)

lemma lsq_run_error:
  assumes "\<And>s p s1 e. f s p = (s1, Inl e) \<Longrightarrow> e \<noteq> TypeError_multistart"
    and "lsq_run n nxt fin f h s = (s', Inl e)"
  shows "e \<noteq> TypeError_multistart"
  using assms(2)
proof (induction n arbitrary: h s)
  case 0
  then show ?case by simp
next
  case (Suc n)
  then show ?case
    using assms(1) by (auto split: option.splits prod.splits sum.splits)
qed

lemma least_squares_error:
  assumes "least_squares E a loc seed s = (s', Inl e)"
  shows "e \<noteq> TypeError_multistart"
proof (rule lsq_run_error)
  show "\<And>s p s1 e. ResidualsFcn E a loc s p = (s1, Inl e) \<Longrightarrow> e \<noteq> TypeError_multistart"
    by (rule ResidualsFcn_error)
  show "lsq_run (lsq_budget E)
          (lsq_next E seed (lb a) (ub a) (nonLinMaxIter a) (nonLinTolFun a))
          (lsq_result E seed (lb a) (ub a) (nonLinMaxIter a) (nonLinTolFun a))
          (ResidualsFcn E a loc) [] (s\<lparr>trace := trace s @ [Call_least_squares]\<rparr>) = (s', Inl e)"
    using assms by (simp add: least_squares_def)
qed

lemma multistart_loop_error:
  "multistart_loop E a loc seeds s acc = (s', Inl e) \<Longrightarrow> e \<noteq> TypeError_multistart"
proof (induction seeds arbitrary: s acc)
  case Nil
  then show ?case by simp
next
  case (Cons seed seeds)
  obtain fv nl ll where acc: "acc = (fv, nl, ll)"
    by (cases acc) auto
  show ?case
    using Cons.prems Cons.IH
    by (auto simp: acc split: prod.splits sum.splits dest: least_squares_error)
qed

lemma subset_stats_error:
  "subset_stats E yv yfit W subs = Inl e \<Longrightarrow> e = IndexError"
  by (induction subs arbitrary: e)
    (auto simp: and_then_Inl_iff take_indices_def split: if_splits)

lemma snlls_finish_error:
  "snlls_finish E a loc s fvals nonlinfits linfits = Inl e \<Longrightarrow> e \<noteq> TypeError_multistart"
  by (auto simp: snlls_finish_def and_then_Inl_iff Let_def argmin_def index_def
      split: if_splits list.splits prod.splits
      dest: matvec_error broadcast_error hconcat_error augment_error subset_stats_error)


lemma snlls_after_setup:
  assumes "snlls_setup E a0 = Inr (a, loc)"
  shows "snlls E a0 =
     (if 1 < multiStarts a0 \<and> list_all isinf (lb a) \<and> list_all isinf (ub a) then
        ([], Inl TypeError_multistart)
      else
        (case multistart_loop E a loc (multistarts E (multiStarts a0) (par0 a0) (lb a) (ub a))
                (init_state loc) ([], [], []) of
           (s, Inl e) \<Rightarrow> (trace s, Inl e)
         | (s, Inr (fvals, nonlinfits, linfits)) \<Rightarrow>
             (trace s, snlls_finish E a loc s fvals nonlinfits linfits)))"
  using snlls_setup_Inr(9,10) [OF assms]
  by (auto simp: snlls_def assms nonLinearConstrained_def)



subsection \<open>The state of the objective across the attempts\<close>

lemma alpha_step_check:
  "check s \<Longrightarrow> alpha_step E a loc s p A = (s1, r) \<Longrightarrow> check s1"
  by (auto simp: alpha_step_def split: if_splits regparam_val.splits sum.splits bool.splits)

lemma ResidualsFcn_check:
  assumes "check s"
  shows "check (fst (ResidualsFcn E a loc s p))"
proof -
  obtain s1 r where a: "alpha_step E a loc s p (Amodel a p) = (s1, r)"
    by (cases "alpha_step E a loc s p (Amodel a p)") auto
  show ?thesis
    using ResidualsFcn_state(3) [OF a] alpha_step_check [OF assms a] by simp
qed

lemma lsq_run_invariant:
  assumes "\<And>s p. I s \<Longrightarrow> I (fst (f s p))" and "I s"
  shows "I (fst (lsq_run n nxt fin f h s))"
  using assms(2)
proof (induction n arbitrary: h s)
  case 0
  then show ?case by simp
next
  case (Suc n)
  show ?case
  proof (cases "nxt h")
    case None
    then show ?thesis using Suc.prems by simp
  next
    case (Some p)
    obtain s' r where f: "f s p = (s', r)"
      by (cases "f s p") auto
    have "I s'"
      using assms(1) [OF Suc.prems, of p] f by simp
    then show ?thesis
      using Suc.IH [of s'] Some f by (cases r) simp_all
  qed
qed

lemma least_squares_check:
  assumes "check s"
  shows "check (fst (least_squares E a loc seed s))"
  unfolding least_squares_def
  by (rule lsq_run_invariant) (simp_all add: ResidualsFcn_check assms)

lemma multistart_loop_check:
  "check s \<Longrightarrow> check (fst (multistart_loop E a loc seeds s acc))"
proof (induction seeds arbitrary: s acc)
  case Nil
  then show ?case by simp
next
  case (Cons seed seeds)
  obtain fv nl ll where acc: "acc = (fv, nl, ll)"
    by (cases acc) auto
  obtain s' r where l: "least_squares E a loc seed s = (s', r)"
    by (cases "least_squares E a loc seed s") auto
  have "check s'"
    using least_squares_check [OF Cons.prems, of E a loc seed] l by simp
  then show ?case
    using Cons.IH [of s'] l by (cases r) (auto simp: acc)
qed

lemma multistart_loop_append:
  "multistart_loop E a loc (xs @ ys) s acc =
     (case multistart_loop E a loc xs s acc of
        (s', Inl e) \<Rightarrow> (s', Inl e)
      | (s', Inr acc') \<Rightarrow> multistart_loop E a loc ys s' acc')"
proof (induction xs arbitrary: s acc)
  case Nil
  then show ?case by simp
next
  case (Cons x xs)
  obtain fv nl ll where acc: "acc = (fv, nl, ll)"
    by (cases acc) auto
  show ?case
    using Cons.IH by (auto simp: acc split: prod.splits sum.splits)
qed

lemma demo_loop_fresh:
  "multistart_loop demo_env
     (demo_args\<lparr>nnlsSolver := n, lbl := [MinusInf], ubl := [PlusInf], regOrder := 0\<rparr>)
     demo_frame [[2001]] (init_state demo_frame) ([], [], []) =
   (\<lparr>par_prev = [2001], check = True, regparam_prev = 2001, linfit = [2003 / 8008003],
     trace = [Call_least_squares, Call_selregparam, Call_linSolver]\<rparr>,
    Inr ([304576468180027 / 128256224096018], [[2001]], [[2003 / 8008003]]))"
  by (simp add: run_defs eval_nat_numeral)

lemma demo_loop_first:
  "multistart_loop demo_env
     (demo_args\<lparr>nnlsSolver := n, lbl := [MinusInf], ubl := [PlusInf], regOrder := 0\<rparr>)
     demo_frame [[2000]] (init_state demo_frame) ([], [], []) =
   (\<lparr>par_prev = [2000], check = True, regparam_prev = 2000, linfit = [2002 / 8000001],
       trace = [Call_least_squares, Call_selregparam, Call_linSolver]\<rparr>,
    Inr ([303968059992001 / 128000032000002], [[2000]], [[2002 / 8000001]]))"
  by (simp add: run_defs eval_nat_numeral)

subsection \<open>The attempts of the multi-start search, one after the other\<close>

lemma multistart_loop_chain:
  assumes "multistart_loop E a loc seeds s0 (fv0, nl0, ll0) = (s, Inr (fv, nl, ll))"
  shows "\<exists>ss xs cs. length ss = Suc (length seeds) \<and> length xs = length seeds
           \<and> length cs = length seeds \<and> ss ! 0 = s0 \<and> ss ! length seeds = s
           \<and> (\<forall>k<length seeds.
                 least_squares E a loc (seeds ! k) (ss ! k) = (ss ! Suc k, Inr (xs ! k, cs ! k)))
           \<and> fv = fv0 @ cs \<and> nl = nl0 @ xs \<and> ll = ll0 @ map linfit (tl ss)"
  using assms
proof (induction seeds arbitrary: s0 fv0 nl0 ll0)
  case Nil
  then show ?case
    by (auto intro!: exI [of _ "[s0]"])
next
  case (Cons seed seeds)
  obtain s' x c where l: "least_squares E a loc seed s0 = (s', Inr (x, c))"
    and r: "multistart_loop E a loc seeds s' (fv0 @ [c], nl0 @ [x], ll0 @ [linfit s'])
              = (s, Inr (fv, nl, ll))"
    using Cons.prems by (auto split: prod.splits sum.splits)
  obtain ss xs cs where c: "length ss = Suc (length seeds)" "length xs = length seeds"
    "length cs = length seeds" "ss ! 0 = s'" "ss ! length seeds = s"
    "\<forall>k<length seeds.
        least_squares E a loc (seeds ! k) (ss ! k) = (ss ! Suc k, Inr (xs ! k, cs ! k))"
    "fv = (fv0 @ [c]) @ cs" "nl = (nl0 @ [x]) @ xs" "ll = (ll0 @ [linfit s']) @ map linfit (tl ss)"
    using Cons.IH [OF r] by blast
  have hd: "ss = s' # tl ss"
    using c(1,4) by (cases ss) auto
  have step: "\<forall>k<length (seed # seeds).
        least_squares E a loc ((seed # seeds) ! k) ((s0 # ss) ! k)
          = ((s0 # ss) ! Suc k, Inr ((x # xs) ! k, (c # cs) ! k))"
  proof (intro allI impI)
    fix k assume k: "k < length (seed # seeds)"
    show "least_squares E a loc ((seed # seeds) ! k) ((s0 # ss) ! k)
          = ((s0 # ss) ! Suc k, Inr ((x # xs) ! k, (c # cs) ! k))"
    proof (cases k)
      case 0
      then show ?thesis using l c(4) by simp
    next
      case (Suc j)
      then show ?thesis using k c(6) by simp
    qed
  qed
  have "ll = ll0 @ map linfit (tl (s0 # ss))"
    using c(9) hd by (metis append.assoc append_Cons append_Nil list.sel(3) list.simps(9))
  then show ?case
    using c(1,2,3,5,7,8) step
    by (intro exI [of _ "s0 # ss"] exI [of _ "x # xs"] exI [of _ "c # cs"]) simp
qed

lemma ResidualsFcn_trace_ls:
  "count_list (trace (fst (ResidualsFcn E a loc s p))) Call_least_squares
     = count_list (trace s) Call_least_squares"
  by (auto simp: ResidualsFcn_def alpha_step_def Let_def
      split: prod.splits sum.splits option.splits if_splits regparam_val.splits bool.splits)

lemma least_squares_trace_ls:
  "count_list (trace (fst (least_squares E a loc seed s))) Call_least_squares
     = Suc (count_list (trace s) Call_least_squares)"
proof -
  define m where "m = Suc (count_list (trace s) Call_least_squares)"
  have "count_list (trace (fst (lsq_run n nxt fin (ResidualsFcn E a loc) h
          (s\<lparr>trace := trace s @ [Call_least_squares]\<rparr>)))) Call_least_squares = m"
    for n nxt fin h
    using lsq_run_invariant
      [of "\<lambda>t. count_list (trace t) Call_least_squares = m" "ResidualsFcn E a loc"
        "s\<lparr>trace := trace s @ [Call_least_squares]\<rparr>" n nxt fin h]
    by (simp add: ResidualsFcn_trace_ls m_def)
  then show ?thesis
    by (simp add: least_squares_def m_def)
qed

lemma chain_trace_ls:
  assumes "length ss = Suc n"
    and "\<forall>k<n. \<exists>r. least_squares E a loc (seeds ! k) (ss ! k) = (ss ! Suc k, r)"
  shows "k \<le> n \<Longrightarrow> count_list (trace (ss ! k)) Call_least_squares
           = count_list (trace (ss ! 0)) Call_least_squares + k"
proof (induction k)
  case 0
  then show ?case by simp
next
  case (Suc k)
  have "k < n"
    using Suc.prems by simp
  then obtain r where "least_squares E a loc (seeds ! k) (ss ! k) = (ss ! Suc k, r)"
    using assms(2) by blast
  then have "count_list (trace (ss ! Suc k)) Call_least_squares
               = Suc (count_list (trace (ss ! k)) Call_least_squares)"
    using least_squares_trace_ls [of E a loc "seeds ! k" "ss ! k"] by simp
  then show ?case
    using Suc by simp
qed


text \<open>
  C4, as the code has it. Past the validation of the bounds: \<^verbatim>\<open>snlls\<close> raises the
  \<^verbatim>\<open>TypeError\<close> on the multi-start search exactly when \<^verbatim>\<open>multiStarts > 1\<close> and
  every lower and every upper bound of the non-linear parameters is infinite, and
  then no solver has been called. One finite bound is enough for the search to go
  ahead. When \<^verbatim>\<open>snlls\<close> returns, \<^verbatim>\<open>least_squares\<close> has been run exactly once from
  each start vector that the seed generator returned, in their order, each run
  starting in the state the one before has left; the run \<open>k\<close> gives \<^verbatim>\<open>sol.x\<close> and
  \<^verbatim>\<open>sol.cost\<close> of the attempt \<open>k\<close>, and the returned fits are \<^verbatim>\<open>sol.x\<close> and the
  linear fit left by the first run among those of least cost.
\<close>

theorem multistart_gate:
  fixes E :: "'g env"
  assumes "snlls_setup E a0 = Inr (a, loc)"
  defines "seeds \<equiv> multistarts E (multiStarts a0) (par0 a0) (lb a) (ub a)"
    and "unbounded \<equiv> 1 < multiStarts a0 \<and> list_all isinf (lb a) \<and> list_all isinf (ub a)"
  shows "(snd (snlls E a0) = Inl TypeError_multistart \<longleftrightarrow> unbounded)
       \<and> (unbounded \<longrightarrow> fst (snlls E a0) = [])
       \<and> (\<forall>tr nonlinfit linfit' q st.
            snlls E a0 = (tr, Inr (nonlinfit, linfit', q, st)) \<longrightarrow>
            (\<exists>ss fvals nonlinfits i.
               length ss = Suc (length seeds) \<and> length fvals = length seeds
               \<and> length nonlinfits = length seeds
               \<and> ss ! 0 = init_state loc
               \<and> (\<forall>k<length seeds.
                     least_squares E a loc (seeds ! k) (ss ! k)
                       = (ss ! Suc k, Inr (nonlinfits ! k, fvals ! k)))
               \<and> tr = trace (ss ! length seeds)
               \<and> count_list tr Call_least_squares = length seeds
               \<and> i < length seeds \<and> nonlinfit = nonlinfits ! i
               \<and> linfit' = linfit (ss ! Suc i)
               \<and> (\<forall>j<length seeds. fvals ! i \<le> fvals ! j)
               \<and> (\<forall>j<i. fvals ! i < fvals ! j)))"
proof (intro conjI allI impI)
  show "snd (snlls E a0) = Inl TypeError_multistart \<longleftrightarrow> unbounded"
    using snlls_after_setup [OF assms(1)]
    by (auto simp: unbounded_def split: prod.splits sum.splits
        dest: multistart_loop_error snlls_finish_error)
next
  assume unbounded
  then show "fst (snlls E a0) = []"
    using snlls_after_setup [OF assms(1)] by (simp add: unbounded_def)
next
  fix tr nonlinfit linfit' q st
  assume r: "snlls E a0 = (tr, Inr (nonlinfit, linfit', q, st))"
  obtain s fvals nonlinfits linfits where
    l: "multistart_loop E a loc seeds (init_state loc) ([], [], [])
          = (s, Inr (fvals, nonlinfits, linfits))"
    and t: "tr = trace s"
    and f: "snlls_finish E a loc s fvals nonlinfits linfits = Inr (nonlinfit, linfit', q, st)"
    using r snlls_after_setup [OF assms(1)]
    by (auto simp: seeds_def split: if_splits prod.splits sum.splits)
  obtain ss where c: "length ss = Suc (length seeds)" "length nonlinfits = length seeds"
    "length fvals = length seeds" "ss ! 0 = init_state loc" "ss ! length seeds = s"
    "\<forall>k<length seeds.
        least_squares E a loc (seeds ! k) (ss ! k) = (ss ! Suc k, Inr (nonlinfits ! k, fvals ! k))"
    "linfits = map linfit (tl ss)"
    using multistart_loop_chain [OF l] by auto
  have cnt: "count_list tr Call_least_squares = length seeds"
    using chain_trace_ls [of ss "length seeds" E a loc seeds "length seeds"] c(1,4,5,6) t
    by (auto simp: init_state_def)
  obtain i where i: "argmin fvals = Inr i" "index nonlinfits i = Inr nonlinfit"
    "index linfits i = Inr linfit'"
    using snlls_finish_choice [OF f] by blast
  have sel: "i < length seeds" "nonlinfit = nonlinfits ! i" "linfit' = linfits ! i"
    "\<forall>j<length seeds. fvals ! i \<le> fvals ! j" "\<forall>j<i. fvals ! i < fvals ! j"
    using argmin_first_min [OF i(1)] i(2,3) c(2,3)
    by (auto simp: index_def split: if_splits)
  have "linfits ! i = linfit (ss ! Suc i)"
    using sel(1) c(1,7) by (simp add: nth_tl)
  then show "\<exists>ss fvals nonlinfits i.
               length ss = Suc (length seeds) \<and> length fvals = length seeds
               \<and> length nonlinfits = length seeds
               \<and> ss ! 0 = init_state loc
               \<and> (\<forall>k<length seeds.
                     least_squares E a loc (seeds ! k) (ss ! k)
                       = (ss ! Suc k, Inr (nonlinfits ! k, fvals ! k)))
               \<and> tr = trace (ss ! length seeds)
               \<and> count_list tr Call_least_squares = length seeds
               \<and> i < length seeds \<and> nonlinfit = nonlinfits ! i
               \<and> linfit' = linfit (ss ! Suc i)
               \<and> (\<forall>j<length seeds. fvals ! i \<le> fvals ! j)
               \<and> (\<forall>j<i. fvals ! i < fvals ! j)"
    using c(1,2,3,4,5,6) t cnt sel by blast
qed

theorem multistart_gate_counterexample:
  "multiStarts demo_args = 2 \<and> lb demo_args = [Val 0] \<and> ub demo_args = [PlusInf]
   \<and> snlls demo_env demo_args =
     ([Call_least_squares, Call_selregparam, Call_linSolver, Call_least_squares, Call_linSolver],
      Inr ([2001], [2003 / 8004002],
           Some (ci (\<lambda>coverage. [[2001 - coverage, 2001 + coverage],
                                  [2003 / 8004002 - coverage, 2003 / 8004002 + coverage]]) 1),
           One_stat 1))"
  using demo_snlls by (simp add: demo_args_def)

lemma demo_setup_unbounded:
  "snlls_setup demo_env (demo_args\<lparr>lb := []\<rparr>) =
     Inr (demo_args\<lparr>lb := [MinusInf], lbl := [MinusInf], ubl := [PlusInf], regOrder := 0\<rparr>,
          demo_frame)"
  by (simp add: setup_defs demo_frame_def)

theorem multistart_gate_witness:
  "snlls demo_env (demo_args\<lparr>lb := []\<rparr>) = ([], Inl TypeError_multistart)
   \<and> snd (snlls demo_env demo_args) \<noteq> Inl TypeError_multistart"
proof -
  have "snd (snlls demo_env (demo_args\<lparr>lb := []\<rparr>)) = Inl TypeError_multistart
      \<and> fst (snlls demo_env (demo_args\<lparr>lb := []\<rparr>)) = []"
    using multistart_gate [OF demo_setup_unbounded] by (simp add: demo_args_def)
  then have "snlls demo_env (demo_args\<lparr>lb := []\<rparr>) = ([], Inl TypeError_multistart)"
    by (simp add: prod_eq_iff)
  moreover have "snd (snlls demo_env demo_args) \<noteq> Inl TypeError_multistart"
    using multistart_gate [OF demo_setup] by (simp add: demo_args_def)
  ultimately show ?thesis
    by simp
qed


subsection \<open>The cache of the objective from one attempt to the next\<close>

lemma least_squares_first_call:
  assumes "lsq_budget E = Suc n"
    and "lsq_next E seed (lb a) (ub a) (nonLinMaxIter a) (nonLinTolFun a) [] = Some p"
  shows "least_squares E a loc seed s =
     (case ResidualsFcn E a loc (s\<lparr>trace := trace s @ [Call_least_squares]\<rparr>) p of
        (s1, Inl e) \<Rightarrow> (s1, Inl e)
      | (s1, Inr res) \<Rightarrow>
          lsq_run n (lsq_next E seed (lb a) (ub a) (nonLinMaxIter a) (nonLinTolFun a))
            (lsq_result E seed (lb a) (ub a) (nonLinMaxIter a) (nonLinTolFun a))
            (ResidualsFcn E a loc) [(p, res)] s1)"
  using assms by (simp add: least_squares_def)

lemma alpha_step_decision:
  fixes E :: "'g env"
  assumes "truthy (includePenalty loc)" and "regparam a = Method meth"
    and "length (par_prev s) = length p"
  defines "reuse \<equiv> check s \<and>
             (\<forall>i<length p. p ! i \<noteq> 0
                \<and> \<bar>par_prev s ! i - p ! i\<bar> / p ! i < alphaOptThreshold a)"
    and "sel \<equiv> selregparam E (y a) (Amodel a p) (ax loc) (regtype a) meth (regOrder a)"
  shows "alpha_step E a loc s p (Amodel a p) =
           (if reuse then (s\<lparr>par_prev := p, regparam_prev := regparam_prev s\<rparr>,
                           Inr (regparam_prev s))
            else (s\<lparr>check := True, trace := trace s @ [Call_selregparam],
                    par_prev := p, regparam_prev := sel\<rparr>, Inr sel))"
proof -
  define Q where "Q \<longleftrightarrow> (\<forall>i<length p. p ! i \<noteq> 0
              \<and> \<bar>par_prev s ! i - p ! i\<bar> / p ! i < alphaOptThreshold a)"
  have rc: "rel_change_small (alphaOptThreshold a) (par_prev s) p = Inr Q"
    using rel_change_small_eq [OF assms(3), of "alphaOptThreshold a"] by (simp add: Q_def)
  have r: "reuse \<longleftrightarrow> check s \<and> Q"
    by (simp add: reuse_def Q_def)
  show ?thesis
    using assms(1,2)
    by (cases "check s"; cases Q) (simp_all add: alpha_step_def r sel_def rc)
qed

lemma first_call_decision:
  fixes E :: "'g env"
  assumes "truthy (includePenalty loc)" and "regparam a = Method meth"
    and "length (par_prev s) = length p"
  defines "reuse \<equiv> check s \<and>
             (\<forall>i<length p. p ! i \<noteq> 0
                \<and> \<bar>par_prev s ! i - p ! i\<bar> / p ! i < alphaOptThreshold a)"
    and "sel \<equiv> selregparam E (y a) (Amodel a p) (ax loc) (regtype a) meth (regOrder a)"
    and "s1 \<equiv> fst (ResidualsFcn E a loc (s\<lparr>trace := trace s @ [Call_least_squares]\<rparr>) p)"
  shows "regparam_prev s1 = (if reuse then regparam_prev s else sel)"
    and "par_prev s1 = p" and "check s1"
    and "count_list (trace s1) Call_selregparam
           = count_list (trace s) Call_selregparam + (if reuse then 0 else 1)"
proof -
  let ?s = "s\<lparr>trace := trace s @ [Call_least_squares]\<rparr>"
  have l: "length (par_prev ?s) = length p"
    using assms(3) by simp
  have d: "alpha_step E a loc ?s p (Amodel a p) =
           (if reuse then (?s\<lparr>par_prev := p, regparam_prev := regparam_prev s\<rparr>,
                           Inr (regparam_prev s))
            else (?s\<lparr>check := True, trace := trace ?s @ [Call_selregparam],
                    par_prev := p, regparam_prev := sel\<rparr>, Inr sel))"
    using alpha_step_decision [OF assms(1,2) l, of E] by (auto simp add: reuse_def sel_def)
  have "regparam_prev s1 = (if reuse then regparam_prev s else sel)
      \<and> par_prev s1 = p \<and> check s1
      \<and> count_list (trace s1) Call_selregparam
           = count_list (trace s) Call_selregparam + (if reuse then 0 else 1)"
  proof (cases reuse)
    case True
    then have e: "alpha_step E a loc ?s p (Amodel a p) =
        (?s\<lparr>par_prev := p, regparam_prev := regparam_prev s\<rparr>, Inr (regparam_prev s))"
      using d by simp
    have c: "check s"
      using True by (simp add: reuse_def)
    show ?thesis
      using ResidualsFcn_state [OF e] True c by (simp add: s1_def)
  next
    case False
    then have e: "alpha_step E a loc ?s p (Amodel a p) =
        (?s\<lparr>check := True, trace := trace ?s @ [Call_selregparam],
            par_prev := p, regparam_prev := sel\<rparr>, Inr sel)"
      using d by simp
    show ?thesis
      using ResidualsFcn_state [OF e] False by (simp add: s1_def)
  qed
  then show "regparam_prev s1 = (if reuse then regparam_prev s else sel)"
    and "par_prev s1 = p" and "check s1"
    and "count_list (trace s1) Call_selregparam
           = count_list (trace s) Call_selregparam + (if reuse then 0 else 1)"
    by blast+
qed

lemma demo_first_attempt:
  "least_squares demo_env
     (demo_args\<lparr>nnlsSolver := n, lbl := [MinusInf], ubl := [PlusInf], regOrder := 0\<rparr>)
     demo_frame [2000] (init_state demo_frame) =
   (\<lparr>par_prev = [2000], check = True, regparam_prev = 2000, linfit = [2002 / 8000001],
       trace = [Call_least_squares, Call_selregparam, Call_linSolver]\<rparr>,
    Inr ([2000], 303968059992001 / 128000032000002))"
  by (simp add: run_defs eval_nat_numeral)

text \<open>
  C8, as the code has it. The variables of the objective (\<^verbatim>\<open>par_prev\<close>,
  \<^verbatim>\<open>regparam_prev\<close>, \<^verbatim>\<open>check\<close>, \<^verbatim>\<open>linfit\<close>) are initialised once, before the
  loop over the start vectors, and the loop does not reset them. When the loop
  returns, there is one state between each two attempts: the attempt \<open>k\<close> is the run
  of \<^verbatim>\<open>least_squares\<close> from the start vector \<open>k\<close> in the state \<open>ss ! k\<close> that the
  attempt before has left (the initial state for the first), and it leaves
  \<open>ss ! Suc k\<close>. Once \<^verbatim>\<open>check\<close> is set it stays set in every later attempt. When the
  solver evaluates the objective at a first point \<open>p\<close> of the attempt \<open>k\<close>, with the
  penalty included and \<^verbatim>\<open>regparam\<close> the name of a selection method, that call has
  the variables of \<open>ss ! k\<close>: the regularization parameter cached by the attempt
  before is reused when \<^verbatim>\<open>check\<close> is set there and \<open>p\<close> is close to the \<^verbatim>\<open>par_prev\<close>
  left there, and \<^verbatim>\<open>selregparam\<close> is called otherwise. In \<^verbatim>\<open>snlls\<close> the loop starts
  in the initial state, where \<^verbatim>\<open>check\<close> is not set.
\<close>

theorem attempts_share_state:
  fixes E :: "'g env"
  assumes "multistart_loop E a loc seeds s0 acc0 = (s, Inr (fvals, nonlinfits, linfits))"
  shows "\<exists>ss. length ss = Suc (length seeds) \<and> ss ! 0 = s0 \<and> ss ! length seeds = s
     \<and> (\<forall>k<length seeds.
           (\<exists>x c. least_squares E a loc (seeds ! k) (ss ! k) = (ss ! Suc k, Inr (x, c)))
           \<and> (check (ss ! k) \<longrightarrow> check (ss ! Suc k))
           \<and> (\<forall>n p meth.
                 lsq_budget E = Suc n
                 \<and> lsq_next E (seeds ! k) (lb a) (ub a) (nonLinMaxIter a) (nonLinTolFun a) []
                     = Some p
                 \<and> truthy (includePenalty loc) \<and> regparam a = Method meth
                 \<and> length (par_prev (ss ! k)) = length p \<longrightarrow>
                 least_squares E a loc (seeds ! k) (ss ! k) =
                   (case ResidualsFcn E a loc
                           ((ss ! k)\<lparr>trace := trace (ss ! k) @ [Call_least_squares]\<rparr>) p of
                      (s1, Inl e) \<Rightarrow> (s1, Inl e)
                    | (s1, Inr res) \<Rightarrow>
                        lsq_run n
                          (lsq_next E (seeds ! k) (lb a) (ub a) (nonLinMaxIter a) (nonLinTolFun a))
                          (lsq_result E (seeds ! k) (lb a) (ub a) (nonLinMaxIter a)
                             (nonLinTolFun a))
                          (ResidualsFcn E a loc) [(p, res)] s1)
                 \<and> regparam_prev (fst (ResidualsFcn E a loc
                       ((ss ! k)\<lparr>trace := trace (ss ! k) @ [Call_least_squares]\<rparr>) p)) =
                     (if check (ss ! k)
                         \<and> (\<forall>i<length p. p ! i \<noteq> 0
                              \<and> \<bar>par_prev (ss ! k) ! i - p ! i\<bar> / p ! i < alphaOptThreshold a)
                      then regparam_prev (ss ! k)
                      else selregparam E (y a) (Amodel a p) (ax loc) (regtype a) meth
                             (regOrder a))
                 \<and> count_list (trace (fst (ResidualsFcn E a loc
                       ((ss ! k)\<lparr>trace := trace (ss ! k) @ [Call_least_squares]\<rparr>) p)))
                       Call_selregparam =
                     count_list (trace (ss ! k)) Call_selregparam +
                     (if check (ss ! k)
                         \<and> (\<forall>i<length p. p ! i \<noteq> 0
                              \<and> \<bar>par_prev (ss ! k) ! i - p ! i\<bar> / p ! i < alphaOptThreshold a)
                      then 0 else 1)))
     \<and> (\<forall>a0. snlls_setup E a0 = Inr (a, loc)
              \<and> \<not> (1 < multiStarts a0 \<and> list_all isinf (lb a) \<and> list_all isinf (ub a))
              \<and> seeds = multistarts E (multiStarts a0) (par0 a0) (lb a) (ub a)
              \<and> s0 = init_state loc \<and> acc0 = ([], [], []) \<longrightarrow>
              snlls E a0 = (trace s, snlls_finish E a loc s fvals nonlinfits linfits)
              \<and> \<not> check (ss ! 0) \<and> regparam_prev (ss ! 0) = 0
              \<and> par_prev (ss ! 0) = replicate (length (par0 a0)) 0)"
proof -
  obtain fv0 nl0 ll0 where acc0: "acc0 = (fv0, nl0, ll0)"
    by (cases acc0) auto
  obtain ss xs cs where c: "length ss = Suc (length seeds)" "ss ! 0 = s0"
    "ss ! length seeds = s"
    "\<forall>k<length seeds.
        least_squares E a loc (seeds ! k) (ss ! k) = (ss ! Suc k, Inr (xs ! k, cs ! k))"
    using multistart_loop_chain [OF assms [unfolded acc0]] by blast
  have step: "\<exists>x c. least_squares E a loc (seeds ! k) (ss ! k) = (ss ! Suc k, Inr (x, c))"
    if "k < length seeds" for k
    using c(4) that by blast
  have chk: "check (ss ! Suc k)" if "k < length seeds" "check (ss ! k)" for k
    using least_squares_check [OF that(2), of E a loc "seeds ! k"] c(4) that(1) by simp
  have snl: "snlls E a0 = (trace s, snlls_finish E a loc s fvals nonlinfits linfits)
              \<and> \<not> check (ss ! 0) \<and> regparam_prev (ss ! 0) = 0
              \<and> par_prev (ss ! 0) = replicate (length (par0 a0)) 0"
    if "snlls_setup E a0 = Inr (a, loc)"
      "\<not> (1 < multiStarts a0 \<and> list_all isinf (lb a) \<and> list_all isinf (ub a))"
      "seeds = multistarts E (multiStarts a0) (par0 a0) (lb a) (ub a)"
      "s0 = init_state loc" "acc0 = ([], [], [])" for a0
  proof -
    have "snlls E a0 = (trace s, snlls_finish E a loc s fvals nonlinfits linfits)"
      using snlls_after_setup [OF that(1)] that(2) assms
      by (simp only: that(3) [symmetric] that(4) [symmetric] that(5) [symmetric] if_False
          prod.case sum.case)
    moreover have "Nnonlin loc = length (par0 a0)"
      using that(1) by (auto simp: snlls_setup_def Let_def split: if_splits)
    ultimately show ?thesis
      using c(2) that(4) by (simp add: init_state_def)
  qed
  show ?thesis
  proof (intro exI [of _ ss] conjI allI impI)
    show "length ss = Suc (length seeds)" "ss ! 0 = s0" "ss ! length seeds = s"
      using c by auto
  next
    fix k assume "k < length seeds"
    then show "\<exists>x c. least_squares E a loc (seeds ! k) (ss ! k) = (ss ! Suc k, Inr (x, c))"
      by (rule step)
  next
    fix k assume "k < length seeds" "check (ss ! k)"
    then show "check (ss ! Suc k)"
      by (rule chk)
  next
    fix k n p meth
    assume h: "lsq_budget E = Suc n
                 \<and> lsq_next E (seeds ! k) (lb a) (ub a) (nonLinMaxIter a) (nonLinTolFun a) []
                     = Some p
                 \<and> truthy (includePenalty loc) \<and> regparam a = Method meth
                 \<and> length (par_prev (ss ! k)) = length p"
    show "least_squares E a loc (seeds ! k) (ss ! k) =
                   (case ResidualsFcn E a loc
                           ((ss ! k)\<lparr>trace := trace (ss ! k) @ [Call_least_squares]\<rparr>) p of
                      (s1, Inl e) \<Rightarrow> (s1, Inl e)
                    | (s1, Inr res) \<Rightarrow>
                        lsq_run n
                          (lsq_next E (seeds ! k) (lb a) (ub a) (nonLinMaxIter a) (nonLinTolFun a))
                          (lsq_result E (seeds ! k) (lb a) (ub a) (nonLinMaxIter a)
                             (nonLinTolFun a))
                          (ResidualsFcn E a loc) [(p, res)] s1)"
      using least_squares_first_call [of E n "seeds ! k" a p loc "ss ! k"] h by blast
    show "regparam_prev (fst (ResidualsFcn E a loc
                       ((ss ! k)\<lparr>trace := trace (ss ! k) @ [Call_least_squares]\<rparr>) p)) =
                     (if check (ss ! k)
                         \<and> (\<forall>i<length p. p ! i \<noteq> 0
                              \<and> \<bar>par_prev (ss ! k) ! i - p ! i\<bar> / p ! i < alphaOptThreshold a)
                      then regparam_prev (ss ! k)
                      else selregparam E (y a) (Amodel a p) (ax loc) (regtype a) meth
                             (regOrder a))"
      using first_call_decision(1) [of loc a meth "ss ! k" p E] h by blast
    show "count_list (trace (fst (ResidualsFcn E a loc
                       ((ss ! k)\<lparr>trace := trace (ss ! k) @ [Call_least_squares]\<rparr>) p)))
                       Call_selregparam =
                     count_list (trace (ss ! k)) Call_selregparam +
                     (if check (ss ! k)
                         \<and> (\<forall>i<length p. p ! i \<noteq> 0
                              \<and> \<bar>par_prev (ss ! k) ! i - p ! i\<bar> / p ! i < alphaOptThreshold a)
                      then 0 else 1)"
      using first_call_decision(4) [of loc a meth "ss ! k" p E] h by blast
  next
    fix a0
    assume "snlls_setup E a0 = Inr (a, loc)
              \<and> \<not> (1 < multiStarts a0 \<and> list_all isinf (lb a) \<and> list_all isinf (ub a))
              \<and> seeds = multistarts E (multiStarts a0) (par0 a0) (lb a) (ub a)
              \<and> s0 = init_state loc \<and> acc0 = ([], [], [])"
    then have "snlls E a0 = (trace s, snlls_finish E a loc s fvals nonlinfits linfits)
              \<and> \<not> check (ss ! 0) \<and> regparam_prev (ss ! 0) = 0
              \<and> par_prev (ss ! 0) = replicate (length (par0 a0)) 0"
      using snl [of a0] by blast
    then show "snlls E a0 = (trace s, snlls_finish E a loc s fvals nonlinfits linfits)"
      "\<not> check (ss ! 0)" "regparam_prev (ss ! 0) = 0"
      "par_prev (ss ! 0) = replicate (length (par0 a0)) 0"
      by auto
  qed
qed


theorem attempts_share_state_counterexample:
  "multistart_loop demo_env
     (demo_args\<lparr>nnlsSolver := Lit ''cvx'', lbl := [MinusInf], ubl := [PlusInf], regOrder := 0\<rparr>)
     demo_frame [[2000], [2001]] (init_state demo_frame) ([], [], []) =
   (\<lparr>par_prev = [2001], check = True, regparam_prev = 2000, linfit = [2003 / 8004002],
     trace = [Call_least_squares, Call_selregparam, Call_linSolver,
              Call_least_squares, Call_linSolver]\<rparr>,
    Inr ([303968059992001 / 128000032000002, 152128074010001 / 64064048016004],
         [[2000], [2001]], [[2002 / 8000001], [2003 / 8004002]]))
   \<and> multistart_loop demo_env
       (demo_args\<lparr>nnlsSolver := Lit ''cvx'', lbl := [MinusInf], ubl := [PlusInf], regOrder := 0\<rparr>)
       demo_frame [[2001]] (init_state demo_frame) ([], [], []) =
     (\<lparr>par_prev = [2001], check = True, regparam_prev = 2001, linfit = [2003 / 8008003],
       trace = [Call_least_squares, Call_selregparam, Call_linSolver]\<rparr>,
      Inr ([304576468180027 / 128256224096018], [[2001]], [[2003 / 8008003]]))
   \<and> (2003 / 8004002 :: real) \<noteq> 2003 / 8008003"
  using demo_loop [of "Lit ''cvx''"] demo_loop_fresh [of "Lit ''cvx''"] by simp

theorem attempts_share_state_witness:
  "(\<exists>x c. least_squares demo_env
       (demo_args\<lparr>nnlsSolver := Lit ''cvx'', lbl := [MinusInf], ubl := [PlusInf], regOrder := 0\<rparr>)
       demo_frame [2001]
       \<lparr>par_prev = [2000], check = True, regparam_prev = 2000, linfit = [2002 / 8000001],
         trace = [Call_least_squares, Call_selregparam, Call_linSolver]\<rparr> =
     (\<lparr>par_prev = [2001], check = True, regparam_prev = 2000, linfit = [2003 / 8004002],
       trace = [Call_least_squares, Call_selregparam, Call_linSolver,
                Call_least_squares, Call_linSolver]\<rparr>, Inr (x, c)))
   \<and> regparam_prev (fst (ResidualsFcn demo_env
       (demo_args\<lparr>nnlsSolver := Lit ''cvx'', lbl := [MinusInf], ubl := [PlusInf], regOrder := 0\<rparr>)
       demo_frame
       \<lparr>par_prev = [2000], check = True, regparam_prev = 2000, linfit = [2002 / 8000001],
         trace = [Call_least_squares, Call_selregparam, Call_linSolver, Call_least_squares]\<rparr>
       [2001])) = 2000"
  using attempts_share_state [OF demo_loop [of "Lit ''cvx''"]]
  apply (elim exE conjE)
  subgoal premises p for ss
  proof -
    let ?a = "demo_args\<lparr>nnlsSolver := Lit ''cvx'', lbl := [MinusInf], ubl := [PlusInf],
                regOrder := 0\<rparr>"
    let ?s1 = "\<lparr>par_prev = [2000], check = True, regparam_prev = 2000,
                linfit = [2002 / 8000001],
                trace = [Call_least_squares, Call_selregparam, Call_linSolver]\<rparr>"
    have "\<exists>x c. least_squares demo_env ?a demo_frame [2000] (ss ! 0) = (ss ! Suc 0, Inr (x, c))"
      using p(4) [rule_format, of 0, THEN conjunct1] by simp
    then have s1: "ss ! Suc 0 = ?s1"
      using demo_first_attempt [of "Lit ''cvx''"] p(2) by auto
    have s2: "ss ! Suc (Suc 0) = \<lparr>par_prev = [2001], check = True, regparam_prev = 2000,
        linfit = [2003 / 8004002],
        trace = [Call_least_squares, Call_selregparam, Call_linSolver,
                 Call_least_squares, Call_linSolver]\<rparr>"
      using p(3) by simp
    have k1: "\<exists>x c. least_squares demo_env ?a demo_frame [2001] (ss ! Suc 0)
                = (ss ! Suc (Suc 0), Inr (x, c))"
      using p(4) [rule_format, of "Suc 0", THEN conjunct1] by simp
    have dec: "regparam_prev (fst (ResidualsFcn demo_env ?a demo_frame
                 ((ss ! Suc 0)\<lparr>trace := trace (ss ! Suc 0) @ [Call_least_squares]\<rparr>) [2001]))
               = 2000"
      using p(4) [rule_format, of "Suc 0", THEN conjunct2, THEN conjunct2, rule_format,
          of 2 "[2001]" "''aic''", THEN conjunct2, THEN conjunct1]
      by (simp add: s1 demo_env_def demo_args_def demo_frame_def truthy_def)
    show ?thesis
      using k1 dec by (simp add: s1 s2)
  qed
  done

subsection \<open>Unknown names of penalty types and solvers\<close>

lemma snlls_setup_names:
  "snlls_setup E (a0\<lparr>regtype := rt, nnlsSolver := nm\<rparr>) = Inl e \<longleftrightarrow> snlls_setup E a0 = Inl e"
  by (auto simp: snlls_setup_def Let_def split: if_splits)

lemma choose_linSolver_unknown:
  "nm \<noteq> Lit ''fnnls'' \<Longrightarrow> nm \<noteq> Lit ''nnlsbpp'' \<Longrightarrow> nm \<noteq> Lit ''cvx'' \<Longrightarrow>
   choose_linSolver lc nn nm =
     (if \<not> lc then Some Solve else if \<not> nn then Some LsqLinear else None)"
  by (simp add: choose_linSolver_def py_is_def)

lemma ResidualsFcn_unbound_solver:
  "linSolver loc = None \<Longrightarrow> alpha_step E a loc s p (Amodel a p) = (s1, Inr alpha) \<Longrightarrow>
   ResidualsFcn E a loc s p = (s1, Inl NameError_linSolver)"
  by (simp add: ResidualsFcn_def Let_def split: prod.splits)

text \<open>
  C9, as the code has it. Neither name is checked when \<^verbatim>\<open>snlls\<close> starts: the
  set-up raises the same errors whatever \<^verbatim>\<open>regtype\<close> and \<^verbatim>\<open>nnlsSolver\<close> are. A
  penalty type that is none of \<^verbatim>\<open>'tikhonov'\<close>, \<^verbatim>\<open>'tv'\<close>, \<^verbatim>\<open>'huber'\<close> makes
  \<^verbatim>\<open>_augment\<close>, once it is called, fail on the unbound variable \<^verbatim>\<open>resreg\<close>. A solver
  name that is none of \<^verbatim>\<open>'fnnls'\<close>, \<^verbatim>\<open>'nnlsbpp'\<close>, \<^verbatim>\<open>'cvx'\<close> is ignored when the
  linear problem is unconstrained or has general bounds; when it is non-negative
  only, \<^verbatim>\<open>linSolver\<close> stays unbound and the objective fails on that name when it
  reaches the linear solve.
\<close>

theorem unknown_names:
  fixes E :: "'g env"
  shows "(rt \<noteq> Lit ''tikhonov'' \<and> rt \<noteq> Lit ''tv'' \<and> rt \<noteq> Lit ''huber'' \<longrightarrow>
            augment res J rt alpha B x eta W = Inl UnboundLocalError_resreg)
       \<and> (snlls_setup E (a0\<lparr>regtype := rt, nnlsSolver := nm\<rparr>) = Inl e
            \<longleftrightarrow> snlls_setup E a0 = Inl e)
       \<and> (nm \<noteq> Lit ''fnnls'' \<and> nm \<noteq> Lit ''nnlsbpp'' \<and> nm \<noteq> Lit ''cvx''
            \<and> snlls_setup E (a0\<lparr>nnlsSolver := nm\<rparr>) = Inr (a, loc) \<longrightarrow>
            linSolver loc =
              (if \<not> linearConstrained (lbl a) (ubl a) then Some Solve
               else if \<not> nonNegativeOnly (lbl a) (ubl a) then Some LsqLinear
               else None))
       \<and> (linSolver loc' = None \<and> alpha_step E a' loc' s p (Amodel a' p) = (s1, Inr v) \<longrightarrow>
            ResidualsFcn E a' loc' s p = (s1, Inl NameError_linSolver))"
proof (intro conjI impI)
  assume h: "nm \<noteq> Lit ''fnnls'' \<and> nm \<noteq> Lit ''nnlsbpp'' \<and> nm \<noteq> Lit ''cvx''
            \<and> snlls_setup E (a0\<lparr>nnlsSolver := nm\<rparr>) = Inr (a, loc)"
  then have "linSolver loc = choose_linSolver (linearConstrained (lbl a) (ubl a))
           (nonNegativeOnly (lbl a) (ubl a)) nm"
    using snlls_setup_Inr(8) [of E "a0\<lparr>nnlsSolver := nm\<rparr>" a loc] by simp
  then show "linSolver loc =
              (if \<not> linearConstrained (lbl a) (ubl a) then Some Solve
               else if \<not> nonNegativeOnly (lbl a) (ubl a) then Some LsqLinear
               else None)"
    using h by (simp add: choose_linSolver_unknown)
qed (simp_all add: augment_unknown snlls_setup_names ResidualsFcn_unbound_solver)

theorem unknown_names_counterexample:
  "augment [0] [] (Lit ''lasso'') 1 [[1]] [1] 1 1 = Inl UnboundLocalError_resreg
   \<and> snlls demo_env (demo_args\<lparr>nnlsSolver := Lit ''bogus''\<rparr>) =
     ([Call_least_squares, Call_selregparam, Call_linSolver, Call_least_squares, Call_linSolver],
      Inr ([2001], [2003 / 8004002],
           Some (ci (\<lambda>coverage. [[2001 - coverage, 2001 + coverage],
                                  [2003 / 8004002 - coverage, 2003 / 8004002 + coverage]]) 1),
           One_stat 1))"
  using demo_snlls_solver [of "Lit ''bogus''"] by (simp add: augment_def penalty_terms_def py_is_def)

lemma demo_setup_nonneg:
  "snlls_setup demo_env (demo_args\<lparr>lbl := [Val 0], nnlsSolver := Lit ''bogus''\<rparr>) =
     Inr (demo_args\<lparr>nnlsSolver := Lit ''bogus'', lbl := [Val 0], ubl := [PlusInf], regOrder := 0\<rparr>,
          demo_frame\<lparr>linSolver := None\<rparr>)"
  by (simp add: setup_defs demo_frame_def)

theorem unknown_names_witness:
  "augment [0] [[1, 1]] (Lit ''ridge'') 1 [[1]] [1] 1 1 = Inl UnboundLocalError_resreg
   \<and> (case snlls_setup demo_env (demo_args\<lparr>lbl := [Val 0], nnlsSolver := Lit ''bogus''\<rparr>) of
         Inr (a, loc) \<Rightarrow> linSolver loc = None | Inl e \<Rightarrow> False)
   \<and> ResidualsFcn demo_env
         (demo_args\<lparr>nnlsSolver := Lit ''bogus'', lbl := [Val 0], ubl := [PlusInf], regOrder := 0\<rparr>)
         (demo_frame\<lparr>linSolver := None\<rparr>) (init_state demo_frame) [2000] =
       (\<lparr>par_prev = [2000], check = True, regparam_prev = 2000, linfit = [0],
         trace = [Call_selregparam]\<rparr>, Inl NameError_linSolver)"
proof -
  let ?a = "demo_args\<lparr>nnlsSolver := Lit ''bogus'', lbl := [Val 0], ubl := [PlusInf], regOrder := 0\<rparr>"
  let ?loc = "demo_frame\<lparr>linSolver := None\<rparr>"
  have 1: "augment [0] [[1, 1]] (Lit ''ridge'') 1 [[1]] [1] 1 1 = Inl UnboundLocalError_resreg"
    using unknown_names [where rt = "Lit ''ridge''" and E = demo_env, THEN conjunct1] by simp
  have s: "snlls_setup demo_env (demo_args\<lparr>lbl := [Val 0]\<rparr>\<lparr>nnlsSolver := Lit ''bogus''\<rparr>)
                  = Inr (?a, ?loc)"
    by (rule demo_setup_nonneg)
  have 2: "linSolver ?loc = None"
    using unknown_names [where nm = "Lit ''bogus''" and E = demo_env
        and ?a0.0 = "demo_args\<lparr>lbl := [Val 0]\<rparr>" and a = ?a and loc = ?loc,
        THEN conjunct2, THEN conjunct2, THEN conjunct1] s
    by (simp add: demo_args_def linearConstrained_def nonNegativeOnly_def)
  have al: "alpha_step demo_env ?a ?loc (init_state demo_frame) [2000] (Amodel ?a [2000])
        = (\<lparr>par_prev = [2000], check = True, regparam_prev = 2000, linfit = [0],
            trace = [Call_selregparam]\<rparr>, Inr 2000)"
    by (simp add: alpha_step_def demo_args_def demo_frame_def truthy_def init_state_def
        demo_env_def demo_Amodel_def)
  have 3: "ResidualsFcn demo_env ?a ?loc (init_state demo_frame) [2000] =
       (\<lparr>par_prev = [2000], check = True, regparam_prev = 2000, linfit = [0],
         trace = [Call_selregparam]\<rparr>, Inl NameError_linSolver)"
    using unknown_names [where E = demo_env and a' = ?a and loc' = ?loc
        and s = "init_state demo_frame" and p = "[2000]", 
        THEN conjunct2, THEN conjunct2, THEN conjunct2] 2 al
    by simp
  show ?thesis
    using 1 2 3 by (simp add: demo_setup_nonneg)
qed

end
